theory Spec2Isabelle
  imports Main "HOL-Library.AList"
begin

section \<open>Types, as the reflect package presents them\<close>

text \<open>
  A \<open>reflect.Type\<close> is an identity; the decoder only ever asks it for its kind, its
  bit size, its key and element types, its fields, and whether a pointer to it
  implements \<open>encoding.TextUnmarshaler\<close>. A type is therefore a name, and a runtime
  record answers those questions. Named types may refer to themselves through a
  pointer, slice or map (\<open>type Crazy struct { A *Crazy }\<close>, \<open>type P *P\<close>).
\<close>

type_synonym rtype = string

record StructField =
  Name :: string
  PkgPath :: string
  Anonymous :: bool
  Tag_param :: string
  Tag_json :: string
  Type :: rtype

text \<open>
  \<open>Tag_param\<close> and \<open>Tag_json\<close> are \<open>sf.Tag.Get("param")\<close> and \<open>sf.Tag.Get("json")\<close>:
  the empty string when the tag has no such key. \<open>PkgPath\<close> is empty for an exported
  field. The kinds of the source's two switches are the constructors below:
  \<open>TInt b\<close> is Int, Int8, Int16, Int32 or Int64 with \<open>t.Bits() = b\<close>, likewise
  \<open>TUint\<close> (Uint, Uint8 .. Uint64) and \<open>TFloat\<close> (Float32, Float64); \<open>TOther\<close> is every
  kind that reaches the \<open>default\<close> branch (Uintptr, Complex64, Complex128, Array, Chan,
  Func, Interface, UnsafePointer, Invalid).
\<close>

datatype tdesc =
    TBool
  | TInt nat
  | TUint nat
  | TFloat nat
  | TMap rtype rtype
  | TPtr rtype
  | TSlice rtype
  | TString
  | TStruct "StructField list"
  | TOther

section \<open>Values\<close>

text \<open>
  The destination graph. A nil map, pointer or slice is \<open>None\<close>. A map is kept as an
  association list on its (string) keys. A struct value lists the fields that were
  written, by offset; a field that was never written holds the zero value of its type
  (\<open>Field\<close> below reads it so), which is how Go's zero struct reads. A float is its
  IEEE-754 bit pattern. Pointers are owned: the model has no aliasing.
\<close>

datatype goval =
    VBool bool
  | VInt int
  | VUint nat
  | VFloat nat
  | VString string
  | VMap "(string \<times> goval) list option"
  | VPtr "goval option"
  | VSlice "goval list option"
  | VStruct "(nat \<times> goval) list"
  | VOther

text \<open>A \<open>reflect.Value\<close>: a type and the value stored in the slot.\<close>

type_synonym Value = "rtype \<times> goval"

section \<open>Errors\<close>

text \<open>
  Modelled from the spec: the error types, declared in a file of the package that is not
  among the sources. Each constructor carries the fields that the struct literals of the
  sources set, in the order in which they set them:
  \<open>InvalidParseError{Type, Hint}\<close>, \<open>KeyError{FullKey, Key, Type, Field}\<close>,
  \<open>NestingError{Key, Type, Nesting}\<close>, \<open>SingletonError{Key, Type, Values}\<close>,
  \<open>SyntaxError{Key, Subtype, ErrorPart}\<close>, \<open>ValueError{Key, Type, Err}\<close>.
\<close>

datatype SyntaxErrorSubtype = MissingOpeningBracket | MissingClosingBracket

datatype cause = NoCause | ErrSyntax | ErrRange | TextErr string

datatype perror =
    InvalidParseError rtype string
  | KeyError string string rtype string
  | NestingError string rtype string
  | SingletonError string rtype "string list"
  | SyntaxError string SyntaxErrorSubtype string
  | ValueError string rtype cause

text \<open>
  What a call does: it panics (inside reflect), it returns an error, or it returns nil
  and leaves a value in the target. A call that returns an error may have written part
  of the target before; the model keeps only the error.
\<close>

datatype 'a outcome = Panic string | Err perror | Ok 'a

section \<open>The runtime\<close>

text \<open>
  \<open>TypeInfo\<close> describes each type. \<open>Implements t\<close> is
  \<open>reflect.PtrTo(t).Implements(textUnmarshalerType)\<close>. \<open>UnmarshalText t v text\<close> is the
  type's own \<open>UnmarshalText\<close> method called on a slot holding \<open>v\<close>: the message of the
  error it returns, or the value it leaves. \<open>ParseFloat s bits\<close> is
  \<open>strconv.ParseFloat\<close>: the cause of the failure, or the bits of the float.
\<close>

record runtime =
  TypeInfo :: "rtype \<Rightarrow> tdesc"
  Implements :: "rtype \<Rightarrow> bool"
  UnmarshalText :: "rtype \<Rightarrow> goval \<Rightarrow> string \<Rightarrow> string + goval"
  ParseFloat :: "string \<Rightarrow> nat \<Rightarrow> cause + nat"

definition Zero :: "runtime \<Rightarrow> rtype \<Rightarrow> goval" where
  "Zero U t =
     (case TypeInfo U t of
        TBool \<Rightarrow> VBool False
      | TInt _ \<Rightarrow> VInt 0
      | TUint _ \<Rightarrow> VUint 0
      | TFloat _ \<Rightarrow> VFloat 0
      | TMap _ _ \<Rightarrow> VMap None
      | TPtr _ \<Rightarrow> VPtr None
      | TSlice _ \<Rightarrow> VSlice None
      | TString \<Rightarrow> VString []
      | TStruct _ \<Rightarrow> VStruct []
      | TOther \<Rightarrow> VOther)"

text \<open>\<open>t.Bits()\<close> panics on a type that is not a sized number.\<close>

definition Bits :: "tdesc \<Rightarrow> nat option" where
  "Bits d = (case d of TInt b \<Rightarrow> Some b | TUint b \<Rightarrow> Some b | TFloat b \<Rightarrow> Some b | _ \<Rightarrow> None)"

section \<open>strings and strconv\<close>

text \<open>
  Go strings are byte strings. \<open>strings.IndexRune\<close> with an ASCII rune is the index of
  the first such byte, \<open>None\<close> for -1.
\<close>

fun IndexRune :: "string \<Rightarrow> char \<Rightarrow> nat option" where
  "IndexRune [] r = None"
| "IndexRune (c # s) r = (if c = r then Some 0 else map_option Suc (IndexRune s r))"

definition digitVal :: "char \<Rightarrow> nat option" where
  "digitVal c = IndexRune ''0123456789'' c"

text \<open>
  \<open>strconv.ParseUint(s, 10, bitSize)\<close> and \<open>strconv.ParseInt(s, 10, bitSize)\<close> of the Go
  standard library, returning the \<open>Err\<close> of the \<open>NumError\<close> on failure. The digits are
  read from the left; the first byte that is no digit is a syntax error, the first
  digit that takes the number beyond the largest value of the size is a range error.
\<close>

fun ParseUint_loop :: "string \<Rightarrow> nat \<Rightarrow> nat \<Rightarrow> cause + nat" where
  "ParseUint_loop [] maxVal n = Inr n"
| "ParseUint_loop (c # s) maxVal n =
     (case digitVal c of
        None \<Rightarrow> Inl ErrSyntax
      | Some d \<Rightarrow>
          if 10 * n + d > maxVal then Inl ErrRange
          else ParseUint_loop s maxVal (10 * n + d))"

definition ParseUint :: "string \<Rightarrow> nat \<Rightarrow> cause + nat" where
  "ParseUint s bitSize =
     (if s = [] then Inl ErrSyntax else ParseUint_loop s (2 ^ bitSize - 1) 0)"

definition ParseInt :: "string \<Rightarrow> nat \<Rightarrow> cause + int" where
  "ParseInt s bitSize =
     (if s = [] then Inl ErrSyntax
      else
        let neg = (hd s = CHR ''-'');
            s' = (if hd s = CHR ''+'' \<or> hd s = CHR ''-'' then tl s else s);
            cutoff = 2 ^ (bitSize - 1)
        in case ParseUint s' bitSize of
             Inl ErrRange \<Rightarrow> Inl ErrRange
           | Inl _ \<Rightarrow> Inl ErrSyntax
           | Inr un \<Rightarrow>
               if \<not> neg \<and> un \<ge> cutoff then Inl ErrRange
               else if neg \<and> un > cutoff then Inl ErrRange
               else Inr (if neg then - int un else int un))"

text \<open>The decimal rendering of an index, for \<open>fmt.Sprintf("%s[%d]", kp, i)\<close>.\<close>

fun itoa :: "nat \<Rightarrow> string" where
  "itoa n =
     (if n < 10 then [''0123456789'' ! n]
      else itoa (n div 10) @ [''0123456789'' ! (n mod 10)])"

declare itoa.simps [simp del]

section \<open>The key path grammar\<close>

text \<open>
  \<open>kpath\<close> is \<open>key[:l-t]\<close>. Every caller passes a \<open>keytail\<close> that is a suffix of \<open>key\<close>, so
  the slice expression is in range.
\<close>

definition kpath :: "string \<Rightarrow> string \<Rightarrow> string" where
  "kpath key keytail = take (length key - length keytail) key"

definition primitive :: "string \<Rightarrow> string \<Rightarrow> rtype \<Rightarrow> string list \<Rightarrow> perror option" where
  "primitive key keytail tipe values =
     (if keytail \<noteq> [] then Some (NestingError (kpath key keytail) tipe keytail)
      else if length values \<noteq> 1 then Some (SingletonError (kpath key keytail) tipe values)
      else None)"

definition keyed :: "rtype \<Rightarrow> string \<Rightarrow> string \<Rightarrow> perror + string \<times> string" where
  "keyed tipe key keytail =
     (if keytail = [] \<or> hd keytail \<noteq> CHR ''[''
      then Inl (SyntaxError (kpath key keytail) MissingOpeningBracket keytail)
      else case IndexRune keytail CHR '']'' of
             None \<Rightarrow> Inl (SyntaxError (kpath key keytail) MissingClosingBracket (drop 1 keytail))
           | Some idx \<Rightarrow> Inr (take (idx - 1) (drop 1 keytail), drop (idx + 1) keytail))"

section \<open>The record metadata cache\<close>

text \<open>
  A cache line holds the offset of the field and its parse function. The parse
  functions are named by the constructors of \<open>handler\<close>; \<open>dispatch\<close> below calls the
  function that a constructor names.
\<close>

datatype handler =
    Fn_parseTextUnmarshaler
  | Fn_parseBool
  | Fn_parseInt
  | Fn_parseUint
  | Fn_parseFloat
  | Fn_parseMap
  | Fn_parsePtr
  | Fn_parseSlice
  | Fn_parseString
  | Fn_parseStruct

datatype cacheLine = CacheLine (offset: nat) (parse_fn: handler)

type_synonym structCache = "string \<rightharpoonup> cacheLine"

text \<open>The package variable \<open>cache\<close>; every function that reads or writes it takes and
  returns it. The lock does not appear: a call runs alone.\<close>

type_synonym cache = "rtype \<rightharpoonup> structCache"

definition extractName :: "StructField \<Rightarrow> string" where
  "extractName sf =
     (let name = Tag_param sf;
          name = (if name = [] then
                    (let name = Tag_json sf
                     in case IndexRune name CHR '','' of
                          Some idx \<Rightarrow> take idx name
                        | None \<Rightarrow> name)
                  else name)
      in if name = [] then Name sf else name)"

definition extractHandler :: "runtime \<Rightarrow> rtype \<Rightarrow> StructField \<Rightarrow> perror + handler" where
  "extractHandler U s sf =
     (if Implements U (Type sf) then Inr Fn_parseTextUnmarshaler
      else case TypeInfo U (Type sf) of
             TBool \<Rightarrow> Inr Fn_parseBool
           | TInt _ \<Rightarrow> Inr Fn_parseInt
           | TUint _ \<Rightarrow> Inr Fn_parseUint
           | TFloat _ \<Rightarrow> Inr Fn_parseFloat
           | TMap _ _ \<Rightarrow> Inr Fn_parseMap
           | TPtr _ \<Rightarrow> Inr Fn_parsePtr
           | TSlice _ \<Rightarrow> Inr Fn_parseSlice
           | TString \<Rightarrow> Inr Fn_parseString
           | TStruct _ \<Rightarrow> Inr Fn_parseStruct
           | TOther \<Rightarrow>
               Inl (InvalidParseError s
                      (''field '' @ [CHR 0x22] @ Name sf @ [CHR 0x22] @ '' in struct '' @ s)))"

text \<open>
  The loop of \<open>cacheStruct\<close> over the fields \<open>t.Field(i)\<close>, \<open>i\<close> from 0 to
  \<open>t.NumField()\<close>: the fields still to visit, the index of the first of them, and the
  table built so far.
\<close>

fun cacheStruct_loop ::
  "runtime \<Rightarrow> rtype \<Rightarrow> StructField list \<Rightarrow> nat \<Rightarrow> structCache \<Rightarrow> perror + structCache" where
  "cacheStruct_loop U t [] i sc = Inr sc"
| "cacheStruct_loop U t (sf # rest) i sc =
     (if PkgPath sf \<noteq> [] \<and> \<not> Anonymous sf then cacheStruct_loop U t rest (Suc i) sc
      else
        let name = extractName sf
        in if name \<noteq> ''-'' then
             (case extractHandler U t sf of
                Inl err \<Rightarrow> Inl err
              | Inr h \<Rightarrow> cacheStruct_loop U t rest (Suc i) (sc(name \<mapsto> CacheLine i h)))
           else cacheStruct_loop U t rest (Suc i) sc)"

definition cacheStruct :: "runtime \<Rightarrow> rtype \<Rightarrow> cache \<Rightarrow> structCache outcome \<times> cache" where
  "cacheStruct U t c =
     (case c t of
        Some sc \<Rightarrow> (Ok sc, c)
      | None \<Rightarrow>
          (case TypeInfo U t of
             TStruct fs \<Rightarrow>
               (case cacheStruct_loop U t fs 0 Map.empty of
                  Inl err \<Rightarrow> (Err err, c)
                | Inr sc \<Rightarrow> (Ok sc, c(t \<mapsto> sc)))
           | _ \<Rightarrow> (Panic ''reflect: NumField of non-struct type'', c)))"

section \<open>Leaf decoders\<close>

text \<open>
  Each returns the value that it sets the target to. The \<open>Set\<close> functions of reflect
  panic on a target of another kind; the dispatcher never calls them so.
\<close>

definition SetBool :: "runtime \<Rightarrow> Value \<Rightarrow> bool \<Rightarrow> goval outcome" where
  "SetBool U target b =
     (case TypeInfo U (fst target) of
        TBool \<Rightarrow> Ok (VBool b)
      | _ \<Rightarrow> Panic ''reflect: call of reflect.Value.SetBool on non-bool Value'')"

definition SetInt :: "runtime \<Rightarrow> Value \<Rightarrow> int \<Rightarrow> goval outcome" where
  "SetInt U target i =
     (case TypeInfo U (fst target) of
        TInt _ \<Rightarrow> Ok (VInt i)
      | _ \<Rightarrow> Panic ''reflect: call of reflect.Value.SetInt on non-int Value'')"

definition SetUint :: "runtime \<Rightarrow> Value \<Rightarrow> nat \<Rightarrow> goval outcome" where
  "SetUint U target i =
     (case TypeInfo U (fst target) of
        TUint _ \<Rightarrow> Ok (VUint i)
      | _ \<Rightarrow> Panic ''reflect: call of reflect.Value.SetUint on non-uint Value'')"

definition SetFloat :: "runtime \<Rightarrow> Value \<Rightarrow> nat \<Rightarrow> goval outcome" where
  "SetFloat U target f =
     (case TypeInfo U (fst target) of
        TFloat _ \<Rightarrow> Ok (VFloat f)
      | _ \<Rightarrow> Panic ''reflect: call of reflect.Value.SetFloat on non-float Value'')"

definition SetString :: "runtime \<Rightarrow> Value \<Rightarrow> string \<Rightarrow> goval outcome" where
  "SetString U target s =
     (case TypeInfo U (fst target) of
        TString \<Rightarrow> Ok (VString s)
      | _ \<Rightarrow> Panic ''reflect: call of reflect.Value.SetString on non-string Value'')"

definition parseTextUnmarshaler ::
  "runtime \<Rightarrow> string \<Rightarrow> string \<Rightarrow> string list \<Rightarrow> Value \<Rightarrow> goval outcome" where
  "parseTextUnmarshaler U key keytail values target =
     (case primitive key keytail (fst target) values of
        Some err \<Rightarrow> Err err
      | None \<Rightarrow>
          if \<not> Implements U (fst target)
          then Panic ''interface conversion: not an encoding.TextUnmarshaler''
          else (case UnmarshalText U (fst target) (snd target) (values ! 0) of
                  Inl err \<Rightarrow> Err (ValueError (kpath key keytail) (fst target) (TextErr err))
                | Inr v \<Rightarrow> Ok v))"

definition parseBool ::
  "runtime \<Rightarrow> string \<Rightarrow> string \<Rightarrow> string list \<Rightarrow> Value \<Rightarrow> goval outcome" where
  "parseBool U key keytail values target =
     (case primitive key keytail (fst target) values of
        Some err \<Rightarrow> Err err
      | None \<Rightarrow>
          if values ! 0 = ''true'' \<or> values ! 0 = ''1'' \<or> values ! 0 = ''on''
          then SetBool U target True
          else if values ! 0 = ''false'' \<or> values ! 0 = ''0'' \<or> values ! 0 = []
          then SetBool U target False
          else Err (ValueError (kpath key keytail) (fst target) NoCause))"

definition parseInt ::
  "runtime \<Rightarrow> string \<Rightarrow> string \<Rightarrow> string list \<Rightarrow> Value \<Rightarrow> goval outcome" where
  "parseInt U key keytail values target =
     (let t = fst target
      in case primitive key keytail t values of
           Some err \<Rightarrow> Err err
         | None \<Rightarrow>
             (case Bits (TypeInfo U t) of
                None \<Rightarrow> Panic ''reflect: Bits of non-arithmetic Type''
              | Some bits \<Rightarrow>
                  (case ParseInt (values ! 0) bits of
                     Inl err \<Rightarrow> Err (ValueError (kpath key keytail) t err)
                   | Inr i \<Rightarrow> SetInt U target i)))"

definition parseUint ::
  "runtime \<Rightarrow> string \<Rightarrow> string \<Rightarrow> string list \<Rightarrow> Value \<Rightarrow> goval outcome" where
  "parseUint U key keytail values target =
     (let t = fst target
      in case primitive key keytail t values of
           Some err \<Rightarrow> Err err
         | None \<Rightarrow>
             (case Bits (TypeInfo U t) of
                None \<Rightarrow> Panic ''reflect: Bits of non-arithmetic Type''
              | Some bits \<Rightarrow>
                  (case ParseUint (values ! 0) bits of
                     Inl err \<Rightarrow> Err (ValueError (kpath key keytail) t err)
                   | Inr i \<Rightarrow> SetUint U target i)))"

definition parseFloat ::
  "runtime \<Rightarrow> string \<Rightarrow> string \<Rightarrow> string list \<Rightarrow> Value \<Rightarrow> goval outcome" where
  "parseFloat U key keytail values target =
     (let t = fst target
      in case primitive key keytail t values of
           Some err \<Rightarrow> Err err
         | None \<Rightarrow>
             (case Bits (TypeInfo U t) of
                None \<Rightarrow> Panic ''reflect: Bits of non-arithmetic Type''
              | Some bits \<Rightarrow>
                  (case ParseFloat U (values ! 0) bits of
                     Inl err \<Rightarrow> Err (ValueError (kpath key keytail) t err)
                   | Inr f \<Rightarrow> SetFloat U target f)))"

definition parseString ::
  "runtime \<Rightarrow> string \<Rightarrow> string \<Rightarrow> string list \<Rightarrow> Value \<Rightarrow> goval outcome" where
  "parseString U key keytail values target =
     (case primitive key keytail (fst target) values of
        Some err \<Rightarrow> Err err
      | None \<Rightarrow> SetString U target (values ! 0))"

section \<open>Container decoders and the dispatcher\<close>

text \<open>
  A step of the decoder returns an outcome and the cache, or does not return
  (\<open>None\<close>). \<open>and_then\<close> is the source's \<open>if err != nil { return err }\<close>.
\<close>

type_synonym 'a step = "('a outcome \<times> cache) option"

type_synonym decoder = "string \<Rightarrow> string \<Rightarrow> string list \<Rightarrow> Value \<Rightarrow> cache \<Rightarrow> goval step"

definition and_then :: "'a step \<Rightarrow> ('a \<Rightarrow> cache \<Rightarrow> 'b step) \<Rightarrow> 'b step" where
  "and_then r f =
     (case r of
        None \<Rightarrow> None
      | Some (Panic msg, c) \<Rightarrow> Some (Panic msg, c)
      | Some (Err err, c) \<Rightarrow> Some (Err err, c)
      | Some (Ok x, c) \<Rightarrow> f x c)"

text \<open>
  The decoders call each other, directly and through the cache lines. In the model
  every such call goes through \<open>call\<close>, which is given the function's name; the
  functions below take \<open>call\<close> as a parameter, and \<open>invoke\<close> ties the knot with a bound
  on the depth of the calls.
\<close>

definition parse :: "runtime \<Rightarrow> (handler \<Rightarrow> decoder) \<Rightarrow> decoder" where
  "parse U call key keytail values target c =
     (let t = fst target
      in if Implements U t then call Fn_parseTextUnmarshaler key keytail values target c
         else case TypeInfo U t of
                TBool \<Rightarrow> call Fn_parseBool key keytail values target c
              | TInt _ \<Rightarrow> call Fn_parseInt key keytail values target c
              | TUint _ \<Rightarrow> call Fn_parseUint key keytail values target c
              | TFloat _ \<Rightarrow> call Fn_parseFloat key keytail values target c
              | TMap _ _ \<Rightarrow> call Fn_parseMap key keytail values target c
              | TPtr _ \<Rightarrow> call Fn_parsePtr key keytail values target c
              | TSlice _ \<Rightarrow> call Fn_parseSlice key keytail values target c
              | TString \<Rightarrow> call Fn_parseString key keytail values target c
              | TStruct _ \<Rightarrow> call Fn_parseStruct key keytail values target c
              | TOther \<Rightarrow> Some (Err (InvalidParseError t []), c))"

text \<open>
  The loop of \<open>parseSlice\<close>: the values still to decode, the index \<open>i\<close> of the first of
  them, and the slice made by \<open>reflect.MakeSlice\<close>, whose element \<open>i\<close> is in range.
\<close>

fun parseSlice_loop ::
  "decoder \<Rightarrow> string \<Rightarrow> rtype \<Rightarrow> string list \<Rightarrow> nat \<Rightarrow> goval list \<Rightarrow> cache \<Rightarrow> goval list step" where
  "parseSlice_loop dec kp et [] i slice c = Some (Ok slice, c)"
| "parseSlice_loop dec kp et (v # rest) i slice c =
     and_then (dec (kp @ ''['' @ itoa i @ '']'') [] [v] (et, slice ! i) c)
       (\<lambda>x c'. parseSlice_loop dec kp et rest (Suc i) (slice[i := x]) c')"

definition parseSlice :: "runtime \<Rightarrow> (handler \<Rightarrow> decoder) \<Rightarrow> decoder" where
  "parseSlice U call key keytail values target c =
     (let t = fst target
      in if keytail \<noteq> ''[]'' then Some (Err (NestingError (kpath key keytail) t keytail), c)
         else case TypeInfo U t of
                TSlice et \<Rightarrow>
                  and_then
                    (parseSlice_loop (parse U call) (kpath key keytail) et values 0
                       (replicate (length values) (Zero U et)) c)
                    (\<lambda>slice c'. Some (Ok (VSlice (Some slice)), c'))
              | _ \<Rightarrow> Some (Panic ''reflect.MakeSlice of non-slice type'', c))"

text \<open>
  \<open>target.MapIndex(mk)\<close> is the stored element, invalid (\<open>None\<close>) when the key is
  absent. The Value it returns is not addressable, so \<open>CanSet()\<close> is false on it.
\<close>

definition MapIndex :: "(string \<times> goval) list \<Rightarrow> string \<Rightarrow> goval option" where
  "MapIndex m mk = map_of m mk"

definition CanSet_MapIndex :: "goval \<Rightarrow> bool" where
  "CanSet_MapIndex val = False"

definition SetMapIndex :: "(string \<times> goval) list \<Rightarrow> string \<Rightarrow> goval \<Rightarrow> (string \<times> goval) list" where
  "SetMapIndex m mk val = AList.update mk val m"

definition parseMap :: "runtime \<Rightarrow> (handler \<Rightarrow> decoder) \<Rightarrow> decoder" where
  "parseMap U call key keytail values target c =
     (let t = fst target
      in case keyed t key keytail of
           Inl err \<Rightarrow> Some (Err err, c)
         | Inr (mapkey, maptail) \<Rightarrow>
             (case TypeInfo U t of
                TMap kt et \<Rightarrow>
                  if TypeInfo U kt = TString then
                    (let m = (case snd target of VMap (Some m) \<Rightarrow> m | _ \<Rightarrow> []);
                         val = (case MapIndex m mapkey of
                                  None \<Rightarrow> Zero U et
                                | Some old \<Rightarrow> if \<not> CanSet_MapIndex old then Zero U et else old)
                     in and_then (parse U call key maptail values (et, val) c)
                          (\<lambda>val c'. Some (Ok (VMap (Some (SetMapIndex m mapkey val))), c')))
                  else Some (Err (InvalidParseError t (''map keys must be strings, not '' @ kt)), c)
              | _ \<Rightarrow> Some (Panic ''reflect: Key of non-map type'', c)))"

text \<open>
  \<open>target.Field(i)\<close>: the slot of field \<open>i\<close>, with the type of the field. It panics when
  the target is no struct or has no field \<open>i\<close>.
\<close>

definition Field :: "runtime \<Rightarrow> Value \<Rightarrow> nat \<Rightarrow> Value option" where
  "Field U target i =
     (case TypeInfo U (fst target) of
        TStruct fs \<Rightarrow>
          if i < length fs then
            Some (Type (fs ! i),
                  case snd target of
                    VStruct vs \<Rightarrow> (case map_of vs i of Some x \<Rightarrow> x | None \<Rightarrow> Zero U (Type (fs ! i)))
                  | _ \<Rightarrow> Zero U (Type (fs ! i)))
          else None
      | _ \<Rightarrow> None)"

definition SetField :: "goval \<Rightarrow> nat \<Rightarrow> goval \<Rightarrow> goval" where
  "SetField s i x =
     (case s of VStruct vs \<Rightarrow> VStruct (AList.update i x vs) | _ \<Rightarrow> VStruct [(i, x)])"

definition parseStructField ::
  "runtime \<Rightarrow> (handler \<Rightarrow> decoder) \<Rightarrow> structCache \<Rightarrow> string \<Rightarrow> string \<Rightarrow> string \<Rightarrow> string list
     \<Rightarrow> Value \<Rightarrow> cache \<Rightarrow> goval step" where
  "parseStructField U call cache key sk keytail values target c =
     (case cache sk of
        None \<Rightarrow> Some (Err (KeyError key (kpath key keytail) (fst target) sk), c)
      | Some l \<Rightarrow>
          (case Field U target (offset l) of
             None \<Rightarrow> Some (Panic ''reflect: Field index out of range'', c)
           | Some f \<Rightarrow>
               and_then (call (parse_fn l) key keytail values f c)
                 (\<lambda>x c'. Some (Ok (SetField (snd target) (offset l) x), c'))))"

definition parseStruct :: "runtime \<Rightarrow> (handler \<Rightarrow> decoder) \<Rightarrow> decoder" where
  "parseStruct U call key keytail values target c =
     (let t = fst target
      in case keyed t key keytail of
           Inl err \<Rightarrow> Some (Err err, c)
         | Inr (sk, skt) \<Rightarrow>
             (case cacheStruct U t c of
                (Panic msg, c') \<Rightarrow> Some (Panic msg, c')
              | (Err err, c') \<Rightarrow> Some (Err err, c')
              | (Ok cache, c') \<Rightarrow> parseStructField U call cache key sk skt values target c'))"

definition parsePtr :: "runtime \<Rightarrow> (handler \<Rightarrow> decoder) \<Rightarrow> decoder" where
  "parsePtr U call key keytail values target c =
     (let t = fst target
      in case TypeInfo U t of
           TPtr et \<Rightarrow>
             (let el = (case snd target of VPtr (Some x) \<Rightarrow> x | _ \<Rightarrow> Zero U et)
              in and_then (parse U call key keytail values (et, el) c)
                   (\<lambda>x c'. Some (Ok (VPtr (Some x)), c')))
         | _ \<Rightarrow> Some (Panic ''reflect: target of parsePtr is not a pointer'', c))"

text \<open>Calling the parse function that a handler names.\<close>

definition dispatch :: "runtime \<Rightarrow> (handler \<Rightarrow> decoder) \<Rightarrow> handler \<Rightarrow> decoder" where
  "dispatch U call h key keytail values target c =
     (case h of
        Fn_parseTextUnmarshaler \<Rightarrow> Some (parseTextUnmarshaler U key keytail values target, c)
      | Fn_parseBool \<Rightarrow> Some (parseBool U key keytail values target, c)
      | Fn_parseInt \<Rightarrow> Some (parseInt U key keytail values target, c)
      | Fn_parseUint \<Rightarrow> Some (parseUint U key keytail values target, c)
      | Fn_parseFloat \<Rightarrow> Some (parseFloat U key keytail values target, c)
      | Fn_parseMap \<Rightarrow> parseMap U call key keytail values target c
      | Fn_parsePtr \<Rightarrow> parsePtr U call key keytail values target c
      | Fn_parseSlice \<Rightarrow> parseSlice U call key keytail values target c
      | Fn_parseString \<Rightarrow> Some (parseString U key keytail values target, c)
      | Fn_parseStruct \<Rightarrow> parseStruct U call key keytail values target c)"

text \<open>
  \<open>invoke n\<close> runs a parse function with at most \<open>n\<close> calls nested inside one another:
  \<open>None\<close> when the nesting goes deeper. A call that returns for some \<open>n\<close> is a call
  that returns; one that is \<open>None\<close> for every \<open>n\<close> recurses without end.
\<close>

primrec invoke :: "nat \<Rightarrow> runtime \<Rightarrow> handler \<Rightarrow> decoder" where
  "invoke 0 U = (\<lambda>h key keytail values target c. None)"
| "invoke (Suc n) U = dispatch U (invoke n U)"

section \<open>The entry point\<close>

text \<open>
  The target is an \<open>interface{}\<close>: nil, or a dynamic type with its value. The
  parameters are the pairs of \<open>url.Values\<close> in the order in which \<open>range\<close> visits them.
  On success the result is the struct that the target points to.
\<close>

datatype iface = NilInterface | Iface rtype goval

fun Parse_loop ::
  "runtime \<Rightarrow> (handler \<Rightarrow> decoder) \<Rightarrow> structCache \<Rightarrow> (string \<times> string list) list
     \<Rightarrow> Value \<Rightarrow> cache \<Rightarrow> goval step" where
  "Parse_loop U call cache [] el c = Some (Ok (snd el), c)"
| "Parse_loop U call cache ((key, values) # rest) el c =
     (let (sk, keytail) = (case IndexRune key CHR ''['' of
                             None \<Rightarrow> (key, [])
                           | Some i \<Rightarrow> (take i key, drop i key))
      in and_then (parseStructField U call cache key sk keytail values el c)
           (\<lambda>x c'. Parse_loop U call cache rest (fst el, x) c'))"

definition Parse ::
  "nat \<Rightarrow> runtime \<Rightarrow> (string \<times> string list) list \<Rightarrow> iface \<Rightarrow> cache \<Rightarrow> goval step" where
  "Parse n U params target c =
     (case target of
        NilInterface \<Rightarrow> Some (Panic ''reflect: call of reflect.Value.Type on zero Value'', c)
      | Iface pt pv \<Rightarrow>
          (let isPtr = (case TypeInfo U pt of TPtr _ \<Rightarrow> True | _ \<Rightarrow> False);
               isNil = (case pv of VPtr (Some _) \<Rightarrow> False | _ \<Rightarrow> True);
               elemIsStruct =
                 (case TypeInfo U pt of
                    TPtr et \<Rightarrow> \<not> isNil \<and> (case TypeInfo U et of TStruct _ \<Rightarrow> True | _ \<Rightarrow> False)
                  | _ \<Rightarrow> False)
           in if \<not> isPtr \<or> \<not> elemIsStruct then
                (let hint = (if isPtr \<and> isNil then ''target may not be a nil pointer''
                             else ''target must be a pointer to a struct'')
                 in Some (Err (InvalidParseError pt hint), c))
              else
                (let el = (case TypeInfo U pt of TPtr et \<Rightarrow> et | _ \<Rightarrow> pt,
                           case pv of VPtr (Some x) \<Rightarrow> x | _ \<Rightarrow> VOther)
                 in case cacheStruct U (fst el) c of
                      (Panic msg, c') \<Rightarrow> Some (Panic msg, c')
                    | (Err err, c') \<Rightarrow> Some (Err err, c')
                    | (Ok cache, c') \<Rightarrow> Parse_loop U (invoke n U) cache params el c')))"

section \<open>Shapes and example types\<close>

text \<open>A leaf shape: a textual-decodable type, or a boolean, number or string kind.\<close>

definition leaf_shaped :: "runtime \<Rightarrow> rtype \<Rightarrow> bool" where
  "leaf_shaped U t =
     (Implements U t \<or>
      (case TypeInfo U t of
         TBool \<Rightarrow> True | TInt _ \<Rightarrow> True | TUint _ \<Rightarrow> True | TFloat _ \<Rightarrow> True
       | TString \<Rightarrow> True | _ \<Rightarrow> False))"

text \<open>
  The types of the examples: the basic types, \<open>type Sub struct { A int; B int }\<close> of the
  package's tests, containers of them, and
  \<^item> \<open>type S struct { M map[string]Sub }\<close>,
  \<^item> \<open>type BadKey struct { Bad map[int]int }\<close>,
  \<^item> \<open>type Unsupported struct { Bad chan string }\<close>,
  \<^item> \<open>type Skipped struct { Bad chan string `param:"-"` }\<close>.
  Any other name, such as \<open>chan string\<close>, is a type of an unsupported kind. No type of
  \<open>demo\<close> is textual-decodable.
\<close>

definition exported :: "string \<Rightarrow> rtype \<Rightarrow> StructField" where
  "exported n t =
     \<lparr>Name = n, PkgPath = [], Anonymous = False, Tag_param = [], Tag_json = [], Type = t\<rparr>"

definition demo_types :: "rtype \<Rightarrow> tdesc" where
  "demo_types t =
     (if t = ''bool'' then TBool
      else if t = ''int'' then TInt 64
      else if t = ''string'' then TString
      else if t = ''[]int'' then TSlice ''int''
      else if t = ''*int'' then TPtr ''int''
      else if t = ''**int'' then TPtr ''*int''
      else if t = ''Sub'' then TStruct [exported ''A'' ''int'', exported ''B'' ''int'']
      else if t = ''map[string]Sub'' then TMap ''string'' ''Sub''
      else if t = ''map[int]int'' then TMap ''int'' ''int''
      else if t = ''S'' then TStruct [exported ''M'' ''map[string]Sub'']
      else if t = ''*S'' then TPtr ''S''
      else if t = ''BadKey'' then TStruct [exported ''Bad'' ''map[int]int'']
      else if t = ''*BadKey'' then TPtr ''BadKey''
      else if t = ''Unsupported'' then TStruct [exported ''Bad'' ''chan string'']
      else if t = ''*Unsupported'' then TPtr ''Unsupported''
      else if t = ''Skipped'' then TStruct [(exported ''Bad'' ''chan string'')\<lparr>Tag_param := ''-''\<rparr>]
      else if t = ''*Skipped'' then TPtr ''Skipped''
      else TOther)"

definition demo :: runtime where
  "demo =
     \<lparr>TypeInfo = demo_types,
      Implements = (\<lambda>t. False),
      UnmarshalText = (\<lambda>t v text. Inl ''not a TextUnmarshaler''),
      ParseFloat = (\<lambda>s bits. Inl ErrSyntax)\<rparr>"

text \<open>
  A shape that reaches the \<open>default\<close> branch of \<open>extractHandler\<close> and of \<open>parse\<close>: not
  textual-decodable and of none of the kinds of the switch.
\<close>

definition unsupported :: "runtime \<Rightarrow> rtype \<Rightarrow> bool" where
  "unsupported U t \<longleftrightarrow> \<not> Implements U t \<and> TypeInfo U t = TOther"


text \<open>
  The cache starts empty and only \<open>cacheStruct\<close> writes it, so every table in it is
  the table that a build of its struct type returned.
\<close>

definition published :: "runtime \<Rightarrow> cache \<Rightarrow> bool" where
  "published U c \<longleftrightarrow>
     (\<forall>t sc. c t = Some sc \<longrightarrow>
        (\<exists>fs. TypeInfo U t = TStruct fs \<and> cacheStruct_loop U t fs 0 Map.empty = Inr sc))"

text \<open>
  \<open>ptr_chain U k t e\<close>: \<open>t\<close> is \<open>k\<close> pointer layers above \<open>e\<close>, none of them
  textual-decodable. \<open>wrap k x\<close> is \<open>x\<close> behind \<open>k\<close> freshly allocated pointers.
\<close>

fun ptr_chain :: "runtime \<Rightarrow> nat \<Rightarrow> rtype \<Rightarrow> rtype \<Rightarrow> bool" where
  "ptr_chain U 0 t e \<longleftrightarrow> t = e"
| "ptr_chain U (Suc k) t e \<longleftrightarrow>
     \<not> Implements U t \<and> (case TypeInfo U t of TPtr t' \<Rightarrow> ptr_chain U k t' e | _ \<Rightarrow> False)"

fun wrap :: "nat \<Rightarrow> goval \<Rightarrow> goval" where
  "wrap 0 x = x"
| "wrap (Suc k) x = VPtr (Some (wrap k x))"

text \<open>
  A decoder that, called with an empty key tail, leaves the cache as it found it and
  returns the same outcome on every cache.
\<close>

definition cache_free :: "decoder \<Rightarrow> bool" where
  "cache_free dec \<longleftrightarrow>
     (\<forall>key values target c r c'. dec key [] values target c = Some (r, c') \<longrightarrow>
        c' = c \<and> (\<forall>c0. dec key [] values target c0 = Some (r, c0)))"

text \<open>
  The element relation of the pointer types is well-founded: no type is reached from
  itself by taking the element type of a pointer again and again. Go admits types for
  which this fails, \<open>type P *P\<close> being the smallest; \<open>cyclic\<close> is \<open>demo\<close> with that type,
  and \<open>plain\<close> has only \<open>int\<close>, \<open>*int\<close> and \<open>**int\<close>.
\<close>

definition pointers_well_founded :: "runtime \<Rightarrow> bool" where
  "pointers_well_founded U \<longleftrightarrow> wf {(e, t). TypeInfo U t = TPtr e}"

definition plain :: runtime where
  "plain = demo\<lparr>TypeInfo := (\<lambda>t. if t = ''**int'' then TPtr ''*int''
                                else if t = ''*int'' then TPtr ''int''
                                else if t = ''int'' then TInt 64 else TOther)\<rparr>"

definition cyclic :: runtime where
  "cyclic = demo\<lparr>TypeInfo := (\<lambda>t. if t = ''P'' then TPtr ''P'' else demo_types t)\<rparr>"

text \<open>\<open>call_le f g\<close>: whenever a call through \<open>f\<close> returns, the call through \<open>g\<close> returns the same.\<close>

definition call_le :: "(handler \<Rightarrow> decoder) \<Rightarrow> (handler \<Rightarrow> decoder) \<Rightarrow> bool" where
  "call_le f g \<longleftrightarrow>
     (\<forall>h key keytail values target c r.
        f h key keytail values target c = Some r \<longrightarrow> g h key keytail values target c = Some r)"

section \<open>Leaf targets\<close>

lemma leaf_nesting:
  assumes "leaf_shaped U t" and "keytail \<noteq> []"
  shows "parse U (invoke (Suc n) U) key keytail values (t, v) c =
         Some (Err (NestingError (kpath key keytail) t keytail), c)"
  using assms
  by (auto simp: leaf_shaped_def parse_def dispatch_def primitive_def parseTextUnmarshaler_def
        parseBool_def parseInt_def parseUint_def parseFloat_def parseString_def
      split: tdesc.splits)

lemma leaf_singleton:
  assumes "leaf_shaped U t" and "keytail = []" and "length values \<noteq> 1"
  shows "parse U (invoke (Suc n) U) key keytail values (t, v) c =
         Some (Err (SingletonError (kpath key keytail) t values), c)"
  using assms
  by (auto simp: leaf_shaped_def parse_def dispatch_def primitive_def parseTextUnmarshaler_def
        parseBool_def parseInt_def parseUint_def parseFloat_def parseString_def
      split: tdesc.splits)

text \<open>
  C3. A target of leaf shape (boolean, integer, unsigned, float, string or
  textual-decodable), decoded with any positive bound on the call depth: a non-empty
  key tail is a Nesting error; an empty tail with a value list that has not exactly one
  value is a Singleton error; and the decoder returns nil, having written the target,
  only if the tail is empty and there is exactly one value.
\<close>

theorem leaf_requires_empty_tail_and_one_value:
  assumes "leaf_shaped U t"
  shows "(keytail \<noteq> [] \<longrightarrow>
            parse U (invoke (Suc n) U) key keytail values (t, v) c =
            Some (Err (NestingError (kpath key keytail) t keytail), c)) \<and>
         (keytail = [] \<and> length values \<noteq> 1 \<longrightarrow>
            parse U (invoke (Suc n) U) key keytail values (t, v) c =
            Some (Err (SingletonError (kpath key keytail) t values), c)) \<and>
         (\<forall>v' c'. parse U (invoke (Suc n) U) key keytail values (t, v) c = Some (Ok v', c') \<longrightarrow>
            keytail = [] \<and> length values = 1)"
proof (intro conjI impI allI)
  assume "keytail \<noteq> []"
  then show "parse U (invoke (Suc n) U) key keytail values (t, v) c =
             Some (Err (NestingError (kpath key keytail) t keytail), c)"
    by (rule leaf_nesting[OF assms])
next
  assume "keytail = [] \<and> length values \<noteq> 1"
  then have "keytail = []" and "length values \<noteq> 1"
    by simp_all
  then show "parse U (invoke (Suc n) U) key keytail values (t, v) c =
             Some (Err (SingletonError (kpath key keytail) t values), c)"
    by (rule leaf_singleton[OF assms])
next
  fix v' c'
  assume ok: "parse U (invoke (Suc n) U) key keytail values (t, v) c = Some (Ok v', c')"
  show "keytail = []"
    using leaf_nesting[OF assms, of keytail n key "values" v c] ok by (cases "keytail = []") auto
  then show "length values = 1"
    using leaf_singleton[OF assms, of keytail "values" n key v c] ok
    by (cases "length values = 1") auto
qed

theorem leaf_requires_empty_tail_and_one_value_witness:
  "leaf_shaped demo ''bool'' \<and>
   parse demo (invoke (Suc 0) demo) ''F[x]'' ''[x]'' [''1''] (''bool'', VBool False) Map.empty =
     Some (Err (NestingError ''F'' ''bool'' ''[x]''), Map.empty) \<and>
   parse demo (invoke (Suc 0) demo) ''F'' [] [''1'', ''0''] (''bool'', VBool False) Map.empty =
     Some (Err (SingletonError ''F'' ''bool'' [''1'', ''0'']), Map.empty) \<and>
   parse demo (invoke (Suc 0) demo) ''F'' [] [''on''] (''bool'', VBool False) Map.empty =
     Some (Ok (VBool True), Map.empty) \<and>
   length [''on''] = 1"
proof -
  have leaf: "leaf_shaped demo ''bool''"
    by (simp add: leaf_shaped_def demo_def demo_types_def)
  have ok: "parse demo (invoke (Suc 0) demo) ''F'' [] [''on''] (''bool'', VBool False) Map.empty =
            Some (Ok (VBool True), Map.empty)"
    by (simp add: parse_def dispatch_def parseBool_def primitive_def SetBool_def demo_def
          demo_types_def)
  show ?thesis
    using leaf ok
      leaf_requires_empty_tail_and_one_value[OF leaf, of "''[x]''" 0 "''F[x]''" "[''1'']"
        "VBool False" Map.empty]
      leaf_requires_empty_tail_and_one_value[OF leaf, of "[]" 0 "''F''" "[''1'', ''0'']"
        "VBool False" Map.empty]
      leaf_requires_empty_tail_and_one_value[OF leaf, of "[]" 0 "''F''" "[''on'']"
        "VBool False" Map.empty]
    by (simp add: kpath_def)
qed

section \<open>Facts about the example types\<close>

lemma demo_simps:
  "TypeInfo demo = demo_types" "Implements demo t = False"
  by (simp_all add: demo_def)

lemma unsupported_build:
  "cacheStruct demo ''Unsupported'' Map.empty =
     (Err (InvalidParseError ''Unsupported''
             (''field '' @ [CHR 0x22] @ ''Bad'' @ [CHR 0x22] @ '' in struct Unsupported'')),
      Map.empty)"
  by (simp add: cacheStruct_def demo_simps demo_types_def extractName_def extractHandler_def
        exported_def)

lemma badkey_build:
  "cacheStruct demo ''BadKey'' Map.empty =
     (Ok [''Bad'' \<mapsto> CacheLine 0 Fn_parseMap],
      [''BadKey'' \<mapsto> [''Bad'' \<mapsto> CacheLine 0 Fn_parseMap]])"
  by (simp add: cacheStruct_def demo_simps demo_types_def extractName_def extractHandler_def
        exported_def)


section \<open>The metadata cache\<close>


lemma IndexRune_Some:
  "IndexRune s r = Some i \<Longrightarrow>
     i < length s \<and> s ! i = r \<and> take i s = takeWhile (\<lambda>c. c \<noteq> r) s \<and>
     drop i s = dropWhile (\<lambda>c. c \<noteq> r) s"
  by (induction s arbitrary: i) (auto split: if_splits)





lemma extractHandler_Inl:
  "extractHandler U s sf = Inl err \<Longrightarrow>
   unsupported U (Type sf) \<and> (\<exists>hint. err = InvalidParseError s hint)"
  by (auto simp: extractHandler_def unsupported_def split: if_splits tdesc.splits)

lemma extractHandler_unsupported:
  "unsupported U (Type sf) \<Longrightarrow> \<exists>hint. extractHandler U s sf = Inl (InvalidParseError s hint)"
  by (auto simp: extractHandler_def unsupported_def)

lemma cacheStruct_loop_Inl:
  "cacheStruct_loop U t fs i sc = Inl err \<Longrightarrow> \<exists>hint. err = InvalidParseError t hint"
  by (induction fs arbitrary: i sc)
     (auto simp: Let_def split: if_splits sum.splits dest: extractHandler_Inl)

lemma cacheStruct_loop_fails:
  assumes "j < length fs" and "PkgPath (fs ! j) = []" and "extractName (fs ! j) \<noteq> ''-''"
    and "unsupported U (Type (fs ! j))"
  shows "\<exists>hint. cacheStruct_loop U t fs i sc = Inl (InvalidParseError t hint)"
  using assms
proof (induction fs arbitrary: i j sc)
  case Nil
  then show ?case by simp
next
  case (Cons sf rest)
  show ?case
  proof (cases j)
    case 0
    with Cons.prems extractHandler_unsupported[of U sf t] show ?thesis
      by (auto simp: Let_def)
  next
    case (Suc k)
    with Cons.prems have k: "k < length rest" "PkgPath (rest ! k) = []"
      "extractName (rest ! k) \<noteq> ''-''" "unsupported U (Type (rest ! k))"
      by simp_all
    have later: "\<exists>hint. cacheStruct_loop U t rest (Suc i) sc' = Inl (InvalidParseError t hint)"
      for sc'
      by (rule Cons.IH[OF k])
    show ?thesis
    proof (cases "cacheStruct_loop U t (sf # rest) i sc")
      case (Inl err)
      with cacheStruct_loop_Inl[OF Inl] show ?thesis by simp
    next
      case (Inr sc')
      then obtain sc1 where "cacheStruct_loop U t rest (Suc i) sc1 = Inr sc'"
        by (auto simp: Let_def split: if_splits sum.splits)
      with later[of sc1] show ?thesis by simp
    qed
  qed
qed

lemma published_empty: "published U Map.empty"
  by (simp add: published_def)

lemma cacheStruct_published: "published U c \<Longrightarrow> published U (snd (cacheStruct U t c))"
  by (auto simp: published_def cacheStruct_def split: option.splits tdesc.splits sum.splits)

text \<open>
  C9. When \<open>cacheStruct\<close> returns an error for a record shape, the shared cache is the
  cache it was called with and holds no table for that shape; a second call for the
  shape, on the cache that the first one left, runs the loop over the fields again and
  returns the same error.
\<close>

theorem failed_build_publishes_nothing:
  assumes "cacheStruct U t c = (Err err, c')"
  shows "c' = c \<and> c' t = None \<and> cacheStruct U t c' = (Err err, c') \<and>
         (\<exists>fs. TypeInfo U t = TStruct fs \<and> cacheStruct_loop U t fs 0 Map.empty = Inl err)"
  using assms
  by (auto simp: cacheStruct_def split: tdesc.splits sum.splits option.splits)

theorem failed_build_publishes_nothing_witness:
  "cacheStruct demo ''Unsupported'' Map.empty =
     (Err (InvalidParseError ''Unsupported''
             (''field '' @ [CHR 0x22] @ ''Bad'' @ [CHR 0x22] @ '' in struct Unsupported'')),
      Map.empty) \<and>
   (Map.empty :: cache) ''Unsupported'' = None \<and>
   cacheStruct_loop demo ''Unsupported'' [exported ''Bad'' ''chan string''] 0 Map.empty =
     Inl (InvalidParseError ''Unsupported''
            (''field '' @ [CHR 0x22] @ ''Bad'' @ [CHR 0x22] @ '' in struct Unsupported''))"
  using failed_build_publishes_nothing[OF unsupported_build] unsupported_build
  by (simp add: demo_simps demo_types_def)



text \<open>
  C8 (as the code has it). \<open>Parse\<close> builds the metadata of the top-level record before
  it visits any input pair: when that record has an exported field of unsupported
  shape whose resolved name is not \<open>-\<close>, \<open>Parse\<close> returns an Invalid-shape error for every
  input, the empty one included, with any bound on the call depth, and leaves the cache
  as it was. The cache is one that holds only tables that \<open>cacheStruct\<close> published, as the
  package's cache always is. A field named \<open>-\<close> is skipped before its shape is looked at
  (see the counterexample).
\<close>

theorem unsupported_field_fails_before_any_pair:
  assumes pub: "published U c"
    and pt: "TypeInfo U pt = TPtr et" and et: "TypeInfo U et = TStruct fs"
    and j: "j < length fs" "PkgPath (fs ! j) = []" "extractName (fs ! j) \<noteq> ''-''"
      "unsupported U (Type (fs ! j))"
  shows "\<exists>hint. Parse n U params (Iface pt (VPtr (Some el))) c =
                 Some (Err (InvalidParseError et hint), c)"
proof -
  from cacheStruct_loop_fails[OF j, where t = et and i = 0 and sc = Map.empty]
  obtain hint where loop: "cacheStruct_loop U et fs 0 Map.empty = Inl (InvalidParseError et hint)"
    by blast
  have miss: "c et = None"
  proof (cases "c et")
    case None
    then show ?thesis .
  next
    case (Some sc)
    with pub obtain fs' where "TypeInfo U et = TStruct fs'"
      and "cacheStruct_loop U et fs' 0 Map.empty = Inr sc"
      unfolding published_def by blast
    with et have "cacheStruct_loop U et fs 0 Map.empty = Inr sc"
      by simp
    with loop show ?thesis by simp
  qed
  have "cacheStruct U et c = (Err (InvalidParseError et hint), c)"
    using miss et loop by (simp add: cacheStruct_def)
  then have "Parse n U params (Iface pt (VPtr (Some el))) c =
             Some (Err (InvalidParseError et hint), c)"
    using pt et by (simp add: Parse_def)
  then show ?thesis by blast
qed

theorem unsupported_field_fails_before_any_pair_witness:
  "published demo Map.empty \<and>
   TypeInfo demo ''*Unsupported'' = TPtr ''Unsupported'' \<and>
   TypeInfo demo ''Unsupported'' = TStruct [exported ''Bad'' ''chan string''] \<and>
   PkgPath (exported ''Bad'' ''chan string'') = [] \<and>
   extractName (exported ''Bad'' ''chan string'') \<noteq> ''-'' \<and>
   unsupported demo ''chan string'' \<and>
   (\<exists>hint. Parse 0 demo [] (Iface ''*Unsupported'' (VPtr (Some (VStruct [])))) Map.empty =
            Some (Err (InvalidParseError ''Unsupported'' hint), Map.empty))"
proof -
  let ?fs = "[exported ''Bad'' ''chan string'']"
  have pt: "TypeInfo demo ''*Unsupported'' = TPtr ''Unsupported''"
    and et: "TypeInfo demo ''Unsupported'' = TStruct ?fs"
    by (simp_all add: demo_simps demo_types_def)
  have j: "0 < length ?fs" "PkgPath (?fs ! 0) = []" "extractName (?fs ! 0) \<noteq> ''-''"
    "unsupported demo (Type (?fs ! 0))"
    by (simp_all add: exported_def extractName_def unsupported_def demo_simps demo_types_def)
  from unsupported_field_fails_before_any_pair[OF published_empty pt et j, of 0 "[]" "VStruct []"]
    pt et j published_empty[of demo]
  show ?thesis
    by (simp add: exported_def)
qed

theorem unsupported_field_named_dash_counterexample:
  "TypeInfo demo ''Skipped'' = TStruct [(exported ''Bad'' ''chan string'')\<lparr>Tag_param := ''-''\<rparr>] \<and>
   PkgPath ((exported ''Bad'' ''chan string'')\<lparr>Tag_param := ''-''\<rparr>) = [] \<and>
   unsupported demo ''chan string'' \<and>
   map_option fst (Parse 0 demo [] (Iface ''*Skipped'' (VPtr (Some (VStruct [])))) Map.empty) =
     Some (Ok (VStruct []))"
  by (simp add: Parse_def demo_simps demo_types_def cacheStruct_def extractName_def
        extractHandler_def exported_def unsupported_def)

section \<open>Map targets\<close>

text \<open>
  C2 (as the code has it). A map type with a key that is not of string kind is given
  the map decoder when the metadata of a record is built: \<open>extractHandler\<close> does not look
  at the key. The Invalid-shape error comes at decode time, from \<open>parseMap\<close>, once the
  key tail has supplied a bracket segment; this holds for a map field of a record
  (called through its cache line) and for a map reached through \<open>parse\<close>.
\<close>

theorem non_string_map_key_fails_at_decode_time:
  assumes "TypeInfo U t = TMap kt et" and "TypeInfo U kt \<noteq> TString" and "\<not> Implements U t"
  shows "(Type sf = t \<longrightarrow> extractHandler U s sf = Inr Fn_parseMap) \<and>
         (\<forall>mk tail. keyed t key keytail = Inr (mk, tail) \<longrightarrow>
            parse U (invoke (Suc n) U) key keytail values (t, v) c =
              Some (Err (InvalidParseError t (''map keys must be strings, not '' @ kt)), c) \<and>
            invoke (Suc n) U Fn_parseMap key keytail values (t, v) c =
              Some (Err (InvalidParseError t (''map keys must be strings, not '' @ kt)), c))"
  using assms
  by (auto simp: extractHandler_def parse_def dispatch_def parseMap_def)

theorem non_string_map_key_fails_at_decode_time_witness:
  "TypeInfo demo ''map[int]int'' = TMap ''int'' ''int'' \<and>
   TypeInfo demo ''int'' \<noteq> TString \<and>
   \<not> Implements demo ''map[int]int'' \<and>
   extractHandler demo ''BadKey'' (exported ''Bad'' ''map[int]int'') = Inr Fn_parseMap \<and>
   keyed ''map[int]int'' ''Bad[123]'' ''[123]'' = Inr (''123'', []) \<and>
   invoke (Suc 0) demo Fn_parseMap ''Bad[123]'' ''[123]'' [''123''] (''map[int]int'', VMap None)
       Map.empty =
     Some (Err (InvalidParseError ''map[int]int'' ''map keys must be strings, not int''),
           Map.empty)"
proof -
  have t: "TypeInfo demo ''map[int]int'' = TMap ''int'' ''int''"
    and kt: "TypeInfo demo ''int'' \<noteq> TString"
    and ni: "\<not> Implements demo ''map[int]int''"
    by (simp_all add: demo_simps demo_types_def)
  have k: "keyed ''map[int]int'' ''Bad[123]'' ''[123]'' = Inr (''123'', [])"
    by (simp add: keyed_def)
  from non_string_map_key_fails_at_decode_time[OF t kt ni,
      of "exported ''Bad'' ''map[int]int''" "''BadKey''" "''Bad[123]''" "''[123]''" 0
        "[''123'']" "VMap None" Map.empty] t kt ni k
  show ?thesis
    by (simp add: exported_def)
qed

theorem non_string_map_key_build_counterexample:
  "TypeInfo demo ''BadKey'' = TStruct [exported ''Bad'' ''map[int]int''] \<and>
   TypeInfo demo ''map[int]int'' = TMap ''int'' ''int'' \<and>
   TypeInfo demo ''int'' = TInt 64 \<and>
   cacheStruct demo ''BadKey'' Map.empty =
     (Ok [''Bad'' \<mapsto> CacheLine 0 Fn_parseMap],
      [''BadKey'' \<mapsto> [''Bad'' \<mapsto> CacheLine 0 Fn_parseMap]]) \<and>
   map_option fst (Parse 0 demo [] (Iface ''*BadKey'' (VPtr (Some (VStruct [])))) Map.empty) =
     Some (Ok (VStruct []))"
  using badkey_build
  by (simp add: Parse_def demo_simps demo_types_def)

text \<open>
  What \<open>parseMap\<close> decodes into is a zero element, whatever the map holds under the key:
  the map that the target held is only read again to store the result.
\<close>

lemma parseMap_starts_from_zero:
  assumes "keyed t key keytail = Inr (mk, tail)" and "TypeInfo U t = TMap kt et"
    and "TypeInfo U kt = TString"
  shows "parseMap U call key keytail values (t, VMap (Some m)) c =
         and_then (parse U call key tail values (et, Zero U et) c)
           (\<lambda>val c'. Some (Ok (VMap (Some (SetMapIndex m mk val))), c'))"
  using assms
  by (simp add: parseMap_def CanSet_MapIndex_def split: option.splits)

text \<open>
  C1 (the code departs from it). \<open>type S struct { M map[string]Sub }\<close>, decoded from
  \<open>M[k][A]=1\<close> and then \<open>M[k][B]=2\<close>: the second pair finds the element that the first
  one stored under \<open>k\<close>, but \<open>CanSet\<close> is false on what \<open>MapIndex\<close> returns, so the decoder
  starts from a zero \<open>Sub\<close> again and the stored element has \<open>B = 2\<close> and no \<open>A\<close>.
\<close>

theorem map_element_rebuilt_from_zero:
  "map_option fst
     (Parse (Suc (Suc (Suc 0))) demo [(''M[k][A]'', [''1'']), (''M[k][B]'', [''2''])]
        (Iface ''*S'' (VPtr (Some (VStruct [])))) Map.empty) =
   Some (Ok (VStruct [(0, VMap (Some [(''k'', VStruct [(1, VInt 2)])]))]))"
  by (simp add: Parse_def demo_simps demo_types_def cacheStruct_def extractName_def
        extractHandler_def exported_def parseStructField_def Field_def Zero_def dispatch_def
        parseMap_def keyed_def kpath_def parse_def and_then_def parseStruct_def parseInt_def
        primitive_def Bits_def ParseInt_def ParseUint_def digitVal_def SetInt_def MapIndex_def
        SetMapIndex_def SetField_def CanSet_MapIndex_def Let_def)

text \<open>The element with both fields, \<open>A = 1\<close> and \<open>B = 2\<close>, is not what is stored.\<close>

theorem map_element_rebuilt_from_zero_witness:
  "map_option fst
     (Parse (Suc (Suc (Suc 0))) demo [(''M[k][A]'', [''1'']), (''M[k][B]'', [''2''])]
        (Iface ''*S'' (VPtr (Some (VStruct [])))) Map.empty) \<noteq>
   Some (Ok (VStruct [(0, VMap (Some [(''k'', VStruct [(0, VInt 1), (1, VInt 2)])]))]))"
  unfolding map_element_rebuilt_from_zero by simp

section \<open>The entry point, its target\<close>

text \<open>
  A target with a dynamic type that is not a non-nil pointer to a struct is refused with
  an Invalid-shape error before the cache or any pair is touched; the hint tells the nil
  pointer from the rest.
\<close>

lemma Parse_rejects_typed_target:
  assumes "\<not> (\<exists>et x fs. TypeInfo U pt = TPtr et \<and> pv = VPtr (Some x) \<and> TypeInfo U et = TStruct fs)"
  shows "Parse n U params (Iface pt pv) c =
         Some (Err (InvalidParseError pt
                 (if (\<exists>et. TypeInfo U pt = TPtr et) \<and> (\<forall>x. pv \<noteq> VPtr (Some x))
                  then ''target may not be a nil pointer''
                  else ''target must be a pointer to a struct'')), c)"
  using assms
  by (auto simp: Parse_def Let_def split: tdesc.splits goval.splits option.splits)

text \<open>
  C7 (the code departs from it). A nil \<open>interface{}\<close> is a target that is not a pointer
  to a record. \<open>reflect.ValueOf(nil)\<close> is the zero Value, its kind is Invalid, so the
  error branch is taken; building the error evaluates \<open>v.Type()\<close>, which panics on the
  zero Value. \<open>Parse\<close> panics; it does not return an Invalid-shape error.
\<close>

theorem nil_interface_panics:
  "Parse n U params NilInterface c =
     Some (Panic ''reflect: call of reflect.Value.Type on zero Value'', c)"
  by (simp add: Parse_def)

theorem nil_interface_panics_witness:
  "Parse 0 demo [(''A'', [''123''])] NilInterface Map.empty =
     Some (Panic ''reflect: call of reflect.Value.Type on zero Value'', Map.empty)"
  by (rule nil_interface_panics)

section \<open>Pointer targets\<close>

lemma and_then_return: "and_then r (\<lambda>x c. Some (Ok x, c)) = r"
  by (auto simp: and_then_def split: option.splits outcome.splits)

lemma and_then_assoc:
  "and_then (and_then r f) g = and_then r (\<lambda>x c. and_then (f x c) g)"
  by (auto simp: and_then_def split: option.splits outcome.splits)

lemma and_then_simps [simp]:
  "and_then (Some (Ok x, c)) f = f x c"
  "and_then (Some (Err e, c)) f = Some (Err e, c)"
  "and_then (Some (Panic m, c)) f = Some (Panic m, c)"
  "and_then None f = None"
  by (simp_all add: and_then_def)

lemma parse_nil_pointer:
  assumes "TypeInfo U t = TPtr e" and "\<not> Implements U t"
  shows "parse U (invoke (Suc n) U) key keytail values (t, VPtr None) c =
         and_then (parse U (invoke n U) key keytail values (e, Zero U e) c)
           (\<lambda>x c'. Some (Ok (VPtr (Some x)), c'))"
proof -
  have "parse U (invoke (Suc n) U) key keytail values (t, VPtr None) c =
        invoke (Suc n) U Fn_parsePtr key keytail values (t, VPtr None) c"
    using assms by (simp add: parse_def)
  also have "\<dots> = parsePtr U (invoke n U) key keytail values (t, VPtr None) c"
    by (simp add: dispatch_def)
  also have "\<dots> = and_then (parse U (invoke n U) key keytail values (e, Zero U e) c)
                     (\<lambda>x c'. Some (Ok (VPtr (Some x)), c'))"
    using assms by (simp add: parsePtr_def)
  finally show ?thesis .
qed

lemma ptr_chain_zero:
  "ptr_chain U k t e \<Longrightarrow>
   parse U (invoke (k + n) U) key keytail values (t, Zero U t) c =
   and_then (parse U (invoke n U) key keytail values (e, Zero U e) c)
     (\<lambda>x c'. Some (Ok (wrap k x), c'))"
proof (induction k arbitrary: t)
  case 0
  then show ?case by (simp add: and_then_return)
next
  case (Suc k)
  then obtain t' where t: "TypeInfo U t = TPtr t'" "\<not> Implements U t"
    and ch: "ptr_chain U k t' e"
    by (auto split: tdesc.splits)
  from t have z: "Zero U t = VPtr None"
    by (simp add: Zero_def)
  show ?case
    using parse_nil_pointer[OF t, of "k + n" key keytail "values" c] Suc.IH[OF ch]
    by (simp add: z and_then_assoc)
qed

text \<open>
  C5. A pointer target \<open>k\<close> layers above a shape \<open>e\<close>, \<open>k\<close> positive, whose slot holds
  no value: the decoder allocates a zero value at each layer and decodes into the
  innermost one with the same key, key tail and value list. The call returns exactly
  when the decode of a zero \<open>e\<close> returns (with \<open>k\<close> more nested calls), with the same
  error or panic and the same cache, and on success the target is the value of that
  decode behind \<open>k\<close> pointers. For \<open>k = 2\<close> this is the doubly-indirected target.
\<close>

theorem pointer_targets_allocate_and_recurse:
  assumes "ptr_chain U k t e" and "0 < k"
  shows "parse U (invoke (k + n) U) key keytail values (t, VPtr None) c =
         and_then (parse U (invoke n U) key keytail values (e, Zero U e) c)
           (\<lambda>x c'. Some (Ok (wrap k x), c'))"
proof -
  from assms obtain k' where "k = Suc k'"
    by (cases k) auto
  with assms(1) have "Zero U t = VPtr None"
    by (auto simp: Zero_def split: tdesc.splits)
  with ptr_chain_zero[OF assms(1), of n key keytail "values" c] show ?thesis
    by simp
qed

lemma demo_parse_int:
  "parse demo (invoke (Suc 0) demo) ''PPInt'' [] [''2''] (''int'', Zero demo ''int'') Map.empty =
     Some (Ok (VInt 2), Map.empty)"
  by (simp add: parse_def dispatch_def demo_simps demo_types_def parseInt_def primitive_def
        Bits_def ParseInt_def ParseUint_def digitVal_def SetInt_def Let_def)

theorem pointer_targets_allocate_and_recurse_witness:
  "ptr_chain demo (Suc (Suc 0)) ''**int'' ''int'' \<and>
   parse demo (invoke (Suc 0) demo) ''PPInt'' [] [''2''] (''int'', Zero demo ''int'') Map.empty =
     Some (Ok (VInt 2), Map.empty) \<and>
   parse demo (invoke (Suc (Suc 0) + Suc 0) demo) ''PPInt'' [] [''2''] (''**int'', VPtr None)
       Map.empty =
     Some (Ok (VPtr (Some (VPtr (Some (VInt 2))))), Map.empty)"
proof -
  have chain: "ptr_chain demo (Suc (Suc 0)) ''**int'' ''int''"
    by (simp add: demo_simps demo_types_def)
  from pointer_targets_allocate_and_recurse[OF chain, of "Suc 0" "''PPInt''" "[]" "[''2'']"
      Map.empty] demo_parse_int chain
  show ?thesis
    by simp
qed

section \<open>Sequence targets\<close>

lemma and_then_cache_free:
  assumes "and_then a g = Some (r, c')"
    and "\<And>r0 c1. a = Some (r0, c1) \<Longrightarrow> c1 = c \<and> a0 = Some (r0, c0)"
    and "\<And>x c1. g x c1 = Some (Ok (w x), c1)"
  shows "c' = c \<and> and_then a0 g = Some (r, c0)"
  using assms
  by (cases a) (auto simp: and_then_def split: outcome.splits)

lemma parse_cache_free:
  assumes "\<And>h. cache_free (call h)"
  shows "cache_free (parse U call)"
  using assms unfolding cache_free_def parse_def Let_def
  by (auto split: tdesc.splits)

lemma invoke_cache_free: "cache_free (invoke n U h)"
proof (induction n arbitrary: h)
  case 0
  then show ?case by (simp add: cache_free_def)
next
  case (Suc n)
  have p: "cache_free (parse U (invoke n U))"
    by (rule parse_cache_free) (rule Suc.IH)
  show ?case
  proof (cases h)
    case Fn_parsePtr
    show ?thesis
      unfolding cache_free_def
    proof (intro allI impI)
      fix key "values" target c r c'
      assume a: "invoke (Suc n) U h key [] values target c = Some (r, c')"
      show "c' = c \<and> (\<forall>c0. invoke (Suc n) U h key [] values target c0 = Some (r, c0))"
      proof (cases "TypeInfo U (fst target)")
        case (TPtr et)
        let ?el = "case snd target of VPtr (Some x) \<Rightarrow> x | _ \<Rightarrow> Zero U et"
        let ?g = "\<lambda>x c'. Some (Ok (VPtr (Some x)), c')"
        from a TPtr Fn_parsePtr
        have b: "and_then (parse U (invoke n U) key [] values (et, ?el) c) ?g = Some (r, c')"
          by (simp add: dispatch_def parsePtr_def)
        have "c' = c \<and> and_then (parse U (invoke n U) key [] values (et, ?el) c0) ?g = Some (r, c0)" for c0
          using b
        proof (rule and_then_cache_free)
          fix r0 c1
          assume "parse U (invoke n U) key [] values (et, ?el) c = Some (r0, c1)"
          with p show "c1 = c \<and> parse U (invoke n U) key [] values (et, ?el) c0 = Some (r0, c0)"
            unfolding cache_free_def by blast
        qed simp
        with TPtr Fn_parsePtr show ?thesis
          by (simp add: dispatch_def parsePtr_def)
      qed (use a Fn_parsePtr in \<open>auto simp: dispatch_def parsePtr_def\<close>)
    qed
  qed (auto simp: cache_free_def dispatch_def parseMap_def parseStruct_def parseSlice_def keyed_def)
qed


lemma parseSlice_loop_sound:
  assumes cf: "cache_free dec"
  shows "parseSlice_loop dec kp et vs i slice c = Some (Ok xs, c') \<Longrightarrow>
         i + length vs \<le> length slice \<Longrightarrow>
         c' = c \<and> length xs = length slice \<and> (\<forall>j<i. xs ! j = slice ! j) \<and>
         (\<forall>j<length vs. dec (kp @ ''['' @ itoa (i + j) @ '']'') [] [vs ! j] (et, slice ! (i + j)) c =
                          Some (Ok (xs ! (i + j)), c))"
proof (induction vs arbitrary: i slice)
  case Nil
  then show ?case by simp
next
  case (Cons v rest)
  let ?d = "dec (kp @ ''['' @ itoa i @ '']'') [] [v] (et, slice ! i) c"
  from Cons.prems(1) obtain x c1 where d: "?d = Some (Ok x, c1)"
    and l: "parseSlice_loop dec kp et rest (Suc i) (slice[i := x]) c1 = Some (Ok xs, c')"
    by (cases ?d) (auto simp: and_then_def split: outcome.splits)
  from cf d have c1: "c1 = c"
    unfolding cache_free_def by blast
  from Cons.prems(2) have len: "Suc i + length rest \<le> length (slice[i := x])"
    by simp
  from Cons.IH[OF l[unfolded c1] len]
  have c': "c' = c" and lx: "length xs = length slice"
    and before: "\<forall>j<Suc i. xs ! j = slice[i := x] ! j"
    and after: "\<forall>j<length rest. dec (kp @ ''['' @ itoa (Suc i + j) @ '']'') [] [rest ! j]
                  (et, slice[i := x] ! (Suc i + j)) c = Some (Ok (xs ! (Suc i + j)), c)"
    by simp_all
  from before Cons.prems(2) have xi: "xs ! i = x"
    by simp
  have "dec (kp @ ''['' @ itoa (i + j) @ '']'') [] [(v # rest) ! j] (et, slice ! (i + j)) c =
        Some (Ok (xs ! (i + j)), c)" if "j < length (v # rest)" for j
  proof (cases j)
    case 0
    with d c1 xi show ?thesis by simp
  next
    case (Suc k)
    with that after show ?thesis by simp
  qed
  moreover from before have "\<forall>j<i. xs ! j = slice ! j"
    by simp
  ultimately show ?case
    using c' lx by blast
qed

lemma parseSlice_loop_complete:
  "(\<forall>j<length vs. dec (kp @ ''['' @ itoa (i + j) @ '']'') [] [vs ! j] (et, slice ! (i + j)) c =
                    Some (Ok (xs ! (i + j)), c)) \<Longrightarrow>
   i + length vs = length slice \<Longrightarrow> length xs = length slice \<Longrightarrow>
   (\<forall>j<i. slice ! j = xs ! j) \<Longrightarrow>
   parseSlice_loop dec kp et vs i slice c = Some (Ok xs, c)"
proof (induction vs arbitrary: i slice)
  case Nil
  then have "slice = xs"
    by (intro nth_equalityI) simp_all
  then show ?case by simp
next
  case (Cons v rest)
  from Cons.prems(1) have d: "dec (kp @ ''['' @ itoa i @ '']'') [] [v] (et, slice ! i) c =
                              Some (Ok (xs ! i), c)"
    by force
  have rest: "\<forall>j<length rest. dec (kp @ ''['' @ itoa (Suc i + j) @ '']'') [] [rest ! j]
                 (et, slice[i := xs ! i] ! (Suc i + j)) c = Some (Ok (xs ! (Suc i + j)), c)"
  proof (intro allI impI)
    fix j assume "j < length rest"
    then have "Suc j < length (v # rest)" by simp
    with Cons.prems(1) have "dec (kp @ ''['' @ itoa (i + Suc j) @ '']'') [] [(v # rest) ! Suc j]
                 (et, slice ! (i + Suc j)) c = Some (Ok (xs ! (i + Suc j)), c)"
      by blast
    then show "dec (kp @ ''['' @ itoa (Suc i + j) @ '']'') [] [rest ! j]
                 (et, slice[i := xs ! i] ! (Suc i + j)) c = Some (Ok (xs ! (Suc i + j)), c)"
      by simp
  qed
  have before: "\<forall>j<Suc i. slice[i := xs ! i] ! j = xs ! j"
    using Cons.prems(2,4) by (auto simp: less_Suc_eq nth_list_update)
  have "parseSlice_loop dec kp et rest (Suc i) (slice[i := xs ! i]) c = Some (Ok xs, c)"
    using Cons.prems(2,3) by (intro Cons.IH[OF rest _ _ before]) simp_all
  with d show ?case by simp
qed

lemma parse_slice:
  assumes "TypeInfo U t = TSlice et" and "\<not> Implements U t"
  shows "parse U (invoke (Suc n) U) key keytail values (t, v) c =
         (if keytail \<noteq> ''[]'' then Some (Err (NestingError (kpath key keytail) t keytail), c)
          else and_then
                 (parseSlice_loop (parse U (invoke n U)) (kpath key keytail) et values 0
                    (replicate (length values) (Zero U et)) c)
                 (\<lambda>slice c'. Some (Ok (VSlice (Some slice)), c')))"
proof -
  have "parse U (invoke (Suc n) U) key keytail values (t, v) c =
        invoke (Suc n) U Fn_parseSlice key keytail values (t, v) c"
    using assms by (simp add: parse_def)
  also have "\<dots> = parseSlice U (invoke n U) key keytail values (t, v) c"
    by (simp add: dispatch_def)
  finally show ?thesis
    using assms by (simp add: parseSlice_def)
qed

text \<open>
  C4. A sequence target, decoded with any positive bound on the call depth. A key tail
  other than \<open>[]\<close> (the empty tail and \<open>[x]\<close> included) is a Nesting error. The outcome
  never depends on the sequence that the target held before. With the tail \<open>[]\<close> the
  decoder returns nil exactly when each value, decoded alone with an empty tail into a
  zero element under the key \<open>path[i]\<close>, returns nil; the target is then a new sequence
  with one element per value, element \<open>i\<close> being the decode of value \<open>i\<close>, and the cache
  is untouched.
\<close>

theorem sequence_replaced_by_decoded_values:
  assumes "TypeInfo U t = TSlice et" and "\<not> Implements U t"
  shows "(keytail \<noteq> ''[]'' \<longrightarrow>
            parse U (invoke (Suc n) U) key keytail values (t, v) c =
            Some (Err (NestingError (kpath key keytail) t keytail), c)) \<and>
         parse U (invoke (Suc n) U) key keytail values (t, v) c =
           parse U (invoke (Suc n) U) key keytail values (t, VSlice None) c \<and>
         (parse U (invoke (Suc n) U) key ''[]'' values (t, v) c = Some (Ok v', c') \<longleftrightarrow>
            c' = c \<and>
            (\<exists>xs. v' = VSlice (Some xs) \<and> length xs = length values \<and>
                  (\<forall>i<length values.
                     parse U (invoke n U) (kpath key ''[]'' @ ''['' @ itoa i @ '']'') []
                       [values ! i] (et, Zero U et) c = Some (Ok (xs ! i), c))))"
proof (intro conjI impI)
  assume "keytail \<noteq> ''[]''"
  then show "parse U (invoke (Suc n) U) key keytail values (t, v) c =
             Some (Err (NestingError (kpath key keytail) t keytail), c)"
    using parse_slice[OF assms, of n key keytail "values" v c] by simp
next
  show "parse U (invoke (Suc n) U) key keytail values (t, v) c =
        parse U (invoke (Suc n) U) key keytail values (t, VSlice None) c"
    by (simp only: parse_slice[OF assms])
next
  let ?dec = "parse U (invoke n U)"
  let ?kp = "kpath key ''[]''"
  let ?zs = "replicate (length values) (Zero U et)"
  let ?loop = "parseSlice_loop ?dec ?kp et values 0 ?zs c"
  have cf: "cache_free ?dec"
    by (rule parse_cache_free) (rule invoke_cache_free)
  have eq: "parse U (invoke (Suc n) U) key ''[]'' values (t, v) c =
            and_then ?loop (\<lambda>slice c'. Some (Ok (VSlice (Some slice)), c'))"
    using parse_slice[OF assms, of n key "''[]''" "values" v c] by simp
  show "parse U (invoke (Suc n) U) key ''[]'' values (t, v) c = Some (Ok v', c') \<longleftrightarrow>
        c' = c \<and>
        (\<exists>xs. v' = VSlice (Some xs) \<and> length xs = length values \<and>
              (\<forall>i<length values. ?dec (?kp @ ''['' @ itoa i @ '']'') [] [values ! i]
                 (et, Zero U et) c = Some (Ok (xs ! i), c)))"
  proof
    assume "parse U (invoke (Suc n) U) key ''[]'' values (t, v) c = Some (Ok v', c')"
    with eq obtain xs where l: "?loop = Some (Ok xs, c')" and v': "v' = VSlice (Some xs)"
      by (cases ?loop) (auto simp: and_then_def split: outcome.splits)
    from parseSlice_loop_sound[OF cf l] v' show "c' = c \<and>
        (\<exists>xs. v' = VSlice (Some xs) \<and> length xs = length values \<and>
              (\<forall>i<length values. ?dec (?kp @ ''['' @ itoa i @ '']'') [] [values ! i]
                 (et, Zero U et) c = Some (Ok (xs ! i), c)))"
      by auto
  next
    assume "c' = c \<and>
        (\<exists>xs. v' = VSlice (Some xs) \<and> length xs = length values \<and>
              (\<forall>i<length values. ?dec (?kp @ ''['' @ itoa i @ '']'') [] [values ! i]
                 (et, Zero U et) c = Some (Ok (xs ! i), c)))"
    then obtain xs where c': "c' = c" and v': "v' = VSlice (Some xs)"
      and len: "length xs = length values"
      and el: "\<forall>i<length values. ?dec (?kp @ ''['' @ itoa i @ '']'') [] [values ! i]
                 (et, Zero U et) c = Some (Ok (xs ! i), c)"
      by blast
    have "?loop = Some (Ok xs, c)"
      using el len by (intro parseSlice_loop_complete) simp_all
    with eq c' v' show "parse U (invoke (Suc n) U) key ''[]'' values (t, v) c = Some (Ok v', c')"
      by simp
  qed
qed


lemma demo_int_element:
  "parse demo (dispatch demo call) key [] [s] (''int'', v) c =
     Some (case ParseInt s 64 of
             Inl err \<Rightarrow> Err (ValueError key ''int'' err)
           | Inr i \<Rightarrow> Ok (VInt i), c)"
  by (simp add: parse_def dispatch_def demo_simps demo_types_def parseInt_def primitive_def
        Bits_def SetInt_def kpath_def split: sum.splits)

lemma ParseInt_digits:
  "ParseInt ''3'' 64 = Inr 3" "ParseInt ''1'' 64 = Inr 1" "ParseInt ''4'' 64 = Inr 4"
  by (simp_all add: ParseInt_def ParseUint_def digitVal_def Let_def)

theorem sequence_replaced_by_decoded_values_witness:
  "TypeInfo demo ''[]int'' = TSlice ''int'' \<and> \<not> Implements demo ''[]int'' \<and>
   parse demo (invoke (Suc (Suc 0)) demo) ''S'' [] [''3''] (''[]int'', VSlice None) Map.empty =
     Some (Err (NestingError ''S'' ''[]int'' []), Map.empty) \<and>
   parse demo (invoke (Suc (Suc 0)) demo) ''S[]'' ''[]'' [''3'', ''1'', ''4'']
       (''[]int'', VSlice (Some [VInt 9])) Map.empty =
     Some (Ok (VSlice (Some [VInt 3, VInt 1, VInt 4])), Map.empty)"
proof -
  have t: "TypeInfo demo ''[]int'' = TSlice ''int''" and ni: "\<not> Implements demo ''[]int''"
    by (simp_all add: demo_simps demo_types_def)
  note nest = sequence_replaced_by_decoded_values[OF t ni, of "[]" "Suc 0" "''S''" "[''3'']"
      "VSlice None" Map.empty]
  note repl = sequence_replaced_by_decoded_values[OF t ni, of "[]" "Suc 0" "''S[]''"
      "[''3'', ''1'', ''4'']" "VSlice (Some [VInt 9])" Map.empty
      "VSlice (Some [VInt 3, VInt 1, VInt 4])" Map.empty]
  have elems: "\<forall>i<length [''3'', ''1'', ''4''].
      parse demo (invoke (Suc 0) demo) (kpath ''S[]'' ''[]'' @ ''['' @ itoa i @ '']'') []
        [[''3'', ''1'', ''4''] ! i] (''int'', Zero demo ''int'') Map.empty =
      Some (Ok ([VInt 3, VInt 1, VInt 4] ! i), Map.empty)"
    by (auto simp: demo_int_element ParseInt_digits less_Suc_eq)
  from nest have a: "parse demo (invoke (Suc (Suc 0)) demo) ''S'' [] [''3''] (''[]int'', VSlice None)
                      Map.empty = Some (Err (NestingError ''S'' ''[]int'' []), Map.empty)"
    by (simp add: kpath_def)
  have b: "parse demo (invoke (Suc (Suc 0)) demo) ''S[]'' ''[]'' [''3'', ''1'', ''4'']
       (''[]int'', VSlice (Some [VInt 9])) Map.empty =
     Some (Ok (VSlice (Some [VInt 3, VInt 1, VInt 4])), Map.empty)"
  proof (rule iffD2[OF repl[THEN conjunct2, THEN conjunct2]], intro conjI exI)
    show "length [VInt 3, VInt 1, VInt 4] = length [''3'', ''1'', ''4'']"
      by simp
    show "\<forall>i<length [''3'', ''1'', ''4''].
      parse demo (invoke (Suc 0) demo) (kpath ''S[]'' ''[]'' @ ''['' @ itoa i @ '']'') []
        [[''3'', ''1'', ''4''] ! i] (''int'', Zero demo ''int'') Map.empty =
      Some (Ok ([VInt 3, VInt 1, VInt 4] ! i), Map.empty)"
      by (rule elems)
  qed (rule refl)+
  show ?thesis
    by (intro conjI t ni a b)
qed


section \<open>Termination of the decoder\<close>

lemma and_then_mono:
  assumes "and_then a f = Some r"
    and "\<And>x. a = Some x \<Longrightarrow> a' = Some x"
    and "\<And>x c. f x c = Some r \<Longrightarrow> f' x c = Some r"
  shows "and_then a' f' = Some r"
  using assms by (cases a) (auto simp: and_then_def split: outcome.splits)

lemma call_leD:
  "call_le f g \<Longrightarrow> f h key keytail values target c = Some r \<Longrightarrow>
   g h key keytail values target c = Some r"
  unfolding call_le_def by blast

lemma parse_mono:
  assumes "call_le f g" and "parse U f key keytail values target c = Some r"
  shows "parse U g key keytail values target c = Some r"
  using assms(2) unfolding parse_def Let_def
  by (auto split: if_splits tdesc.splits intro: call_leD[OF assms(1)])

lemma parseSlice_loop_mono:
  assumes "\<And>key keytail values target c r.
             dec key keytail values target c = Some r \<Longrightarrow> dec' key keytail values target c = Some r"
  shows "parseSlice_loop dec kp et vs i slice c = Some r \<Longrightarrow>
         parseSlice_loop dec' kp et vs i slice c = Some r"
proof (induction vs arbitrary: i slice c)
  case Nil
  then show ?case by simp
next
  case (Cons v rest)
  from Cons.prems show ?case
    unfolding parseSlice_loop.simps
    by (rule and_then_mono) (auto intro: assms Cons.IH)
qed

lemma parseStructField_mono:
  assumes "call_le f g" and "parseStructField U f cache key sk keytail values target c = Some r"
  shows "parseStructField U g cache key sk keytail values target c = Some r"
proof (cases "cache sk")
  case None
  with assms(2) show ?thesis by (simp add: parseStructField_def)
next
  case (Some l)
  show ?thesis
  proof (cases "Field U target (offset l)")
    case None
    with Some assms(2) show ?thesis by (simp add: parseStructField_def)
  next
    case (Some fv)
    from assms(2) \<open>cache sk = Some l\<close> Some
    have "and_then (f (parse_fn l) key keytail values fv c)
            (\<lambda>x c'. Some (Ok (SetField (snd target) (offset l) x), c')) = Some r"
      by (simp add: parseStructField_def)
    then have "and_then (g (parse_fn l) key keytail values fv c)
            (\<lambda>x c'. Some (Ok (SetField (snd target) (offset l) x), c')) = Some r"
      by (rule and_then_mono) (auto intro: call_leD[OF assms(1)])
    with \<open>cache sk = Some l\<close> Some show ?thesis by (simp add: parseStructField_def)
  qed
qed

lemma parseMap_mono:
  assumes "call_le f g" and "parseMap U f key keytail values target c = Some r"
  shows "parseMap U g key keytail values target c = Some r"
  using assms(2) unfolding parseMap_def Let_def
  by (auto split: sum.splits tdesc.splits if_splits prod.splits
      intro: and_then_mono parse_mono[OF assms(1)])

lemma parsePtr_mono:
  assumes "call_le f g" and "parsePtr U f key keytail values target c = Some r"
  shows "parsePtr U g key keytail values target c = Some r"
  using assms(2) unfolding parsePtr_def Let_def
  by (auto split: tdesc.splits intro: and_then_mono parse_mono[OF assms(1)])

lemma parseSlice_mono:
  assumes "call_le f g" and "parseSlice U f key keytail values target c = Some r"
  shows "parseSlice U g key keytail values target c = Some r"
  using assms(2) unfolding parseSlice_def Let_def
  by (auto split: tdesc.splits if_splits
      intro: and_then_mono parseSlice_loop_mono[where dec' = "parse U g"] parse_mono[OF assms(1)])

lemma parseStruct_mono:
  assumes "call_le f g" and "parseStruct U f key keytail values target c = Some r"
  shows "parseStruct U g key keytail values target c = Some r"
  using assms(2) unfolding parseStruct_def Let_def
  by (auto split: sum.splits prod.splits outcome.splits
      intro: parseStructField_mono[OF assms(1)])

lemma dispatch_mono: "call_le f g \<Longrightarrow> call_le (dispatch U f) (dispatch U g)"
  unfolding call_le_def
proof (intro allI impI)
  fix h key keytail "values" target c r
  assume le: "\<forall>h key keytail values target c r.
          f h key keytail values target c = Some r \<longrightarrow> g h key keytail values target c = Some r"
    and a: "dispatch U f h key keytail values target c = Some r"
  from le have le': "call_le f g" by (simp add: call_le_def)
  show "dispatch U g h key keytail values target c = Some r"
    using a parseMap_mono[OF le'] parsePtr_mono[OF le'] parseSlice_mono[OF le']
      parseStruct_mono[OF le']
    by (cases h) (simp_all add: dispatch_def)
qed

lemma invoke_Suc_mono: "call_le (invoke n U) (invoke (Suc n) U)"
proof (induction n)
  case 0
  show ?case by (simp add: call_le_def)
next
  case (Suc n)
  from dispatch_mono[OF Suc] show ?case by simp
qed

lemma invoke_mono: "n \<le> m \<Longrightarrow> call_le (invoke n U) (invoke m U)"
proof (induction m)
  case 0
  then show ?case by (simp add: call_le_def)
next
  case (Suc m)
  show ?case
  proof (cases "n = Suc m")
    case True
    then show ?thesis by (simp add: call_le_def)
  next
    case False
    with Suc.prems have "n \<le> m" by simp
    from Suc.IH[OF this] invoke_Suc_mono[of m U] show ?thesis
      unfolding call_le_def by blast
  qed
qed


lemma keyed_shorter: "keyed t key keytail = Inr (mk, tail) \<Longrightarrow> length tail < length keytail"
  by (auto simp: keyed_def split: if_splits option.splits dest!: IndexRune_Some)

lemma and_then_total:
  assumes "a = Some x" and "\<And>y c. \<exists>r. g y c = Some r"
  shows "\<exists>r. and_then a g = Some r"
proof (cases x)
  case (Pair oc c)
  with assms show ?thesis
    by (cases oc) simp_all
qed

lemma parse_returns_if:
  assumes "\<And>h. \<exists>n r. invoke n U h key keytail values target c = Some r"
  shows "\<exists>n r. parse U (invoke n U) key keytail values target c = Some r"
proof (cases "Implements U (fst target)")
  case True
  with assms[of Fn_parseTextUnmarshaler] show ?thesis
    by (simp add: parse_def)
next
  case False
  show ?thesis
  proof (cases "TypeInfo U (fst target)")
    case TBool
    with False assms[of Fn_parseBool] show ?thesis by (simp add: parse_def)
  next
    case (TInt b)
    with False assms[of Fn_parseInt] show ?thesis by (simp add: parse_def)
  next
    case (TUint b)
    with False assms[of Fn_parseUint] show ?thesis by (simp add: parse_def)
  next
    case (TFloat b)
    with False assms[of Fn_parseFloat] show ?thesis by (simp add: parse_def)
  next
    case (TMap kt et)
    with False assms[of Fn_parseMap] show ?thesis by (simp add: parse_def)
  next
    case (TPtr et)
    with False assms[of Fn_parsePtr] show ?thesis by (simp add: parse_def)
  next
    case (TSlice et)
    with False assms[of Fn_parseSlice] show ?thesis by (simp add: parse_def)
  next
    case TString
    with False assms[of Fn_parseString] show ?thesis by (simp add: parse_def)
  next
    case (TStruct fs)
    with False assms[of Fn_parseStruct] show ?thesis by (simp add: parse_def)
  next
    case TOther
    with False show ?thesis by (simp add: parse_def)
  qed
qed

lemma parseMap_returns:
  assumes "\<And>kt tg. length kt < length keytail \<Longrightarrow>
             \<exists>n r. parse U (invoke n U) key kt values tg c = Some r"
  shows "\<exists>n r. parseMap U (invoke n U) key keytail values target c = Some r"
proof (cases "keyed (fst target) key keytail")
  case (Inl err)
  then show ?thesis by (simp add: parseMap_def)
next
  case (Inr p)
  obtain mk tail where p: "p = (mk, tail)" by (cases p)
  with Inr have short: "length tail < length keytail"
    by (auto dest: keyed_shorter)
  show ?thesis
  proof (cases "TypeInfo U (fst target)")
    case (TMap kt et)
    show ?thesis
    proof (cases "TypeInfo U kt = TString")
      case True
      let ?m = "case snd target of VMap (Some m) \<Rightarrow> m | _ \<Rightarrow> []"
      let ?val = "case MapIndex ?m mk of None \<Rightarrow> Zero U et
                  | Some old \<Rightarrow> if \<not> CanSet_MapIndex old then Zero U et else old"
      from assms[OF short] obtain n r0
        where "parse U (invoke n U) key tail values (et, ?val) c = Some r0"
        by blast
      then have "\<exists>r. and_then (parse U (invoke n U) key tail values (et, ?val) c)
                   (\<lambda>val c'. Some (Ok (VMap (Some (SetMapIndex ?m mk val))), c')) = Some r"
        by (rule and_then_total) simp
      with Inr p TMap True show ?thesis
        by (auto simp: parseMap_def Let_def)
    next
      case False
      with Inr p TMap show ?thesis by (simp add: parseMap_def)
    qed
  qed (use Inr p in \<open>simp_all add: parseMap_def\<close>)
qed

lemma parsePtr_returns:
  assumes "\<And>et el. TypeInfo U (fst target) = TPtr et \<Longrightarrow>
             \<exists>n r. parse U (invoke n U) key keytail values (et, el) c = Some r"
  shows "\<exists>n r. parsePtr U (invoke n U) key keytail values target c = Some r"
proof (cases "TypeInfo U (fst target)")
  case (TPtr et)
  let ?el = "case snd target of VPtr (Some x) \<Rightarrow> x | _ \<Rightarrow> Zero U et"
  from assms[OF TPtr] obtain n r0
    where "parse U (invoke n U) key keytail values (et, ?el) c = Some r0"
    by blast
  then have "\<exists>r. and_then (parse U (invoke n U) key keytail values (et, ?el) c)
               (\<lambda>x c'. Some (Ok (VPtr (Some x)), c')) = Some r"
    by (rule and_then_total) simp
  with TPtr show ?thesis
    by (auto simp: parsePtr_def Let_def)
qed (simp_all add: parsePtr_def)

lemma parseStruct_returns:
  assumes "\<And>h kt tg c'. length kt < length keytail \<Longrightarrow>
             \<exists>n r. invoke n U h key kt values tg c' = Some r"
  shows "\<exists>n r. parseStruct U (invoke n U) key keytail values target c = Some r"
proof (cases "keyed (fst target) key keytail")
  case (Inl err)
  then show ?thesis by (simp add: parseStruct_def)
next
  case (Inr p)
  obtain sk skt where p: "p = (sk, skt)" by (cases p)
  with Inr have short: "length skt < length keytail"
    by (auto dest: keyed_shorter)
  obtain oc c' where cs: "cacheStruct U (fst target) c = (oc, c')"
    by (cases "cacheStruct U (fst target) c")
  show ?thesis
  proof (cases oc)
    case (Ok cache)
    have "\<exists>n r. parseStructField U (invoke n U) cache key sk skt values target c' = Some r"
    proof (cases "cache sk")
      case None
      then show ?thesis by (simp add: parseStructField_def)
    next
      case (Some l)
      show ?thesis
      proof (cases "Field U target (offset l)")
        case None
        with Some show ?thesis by (simp add: parseStructField_def)
      next
        case (Some fv)
        from assms[OF short] obtain n r0
          where "invoke n U (parse_fn l) key skt values fv c' = Some r0"
          by blast
        then have "\<exists>r. and_then (invoke n U (parse_fn l) key skt values fv c')
                     (\<lambda>x c'. Some (Ok (SetField (snd target) (offset l) x), c')) = Some r"
          by (rule and_then_total) simp
        with \<open>cache sk = Some l\<close> Some show ?thesis
          by (auto simp: parseStructField_def)
      qed
    qed
    with Inr p cs Ok show ?thesis
      by (simp add: parseStruct_def)
  qed (use Inr p cs in \<open>simp_all add: parseStruct_def\<close>)
qed

lemma parseSlice_loop_returns:
  assumes "\<And>k v tg c'. \<exists>n r. parse U (invoke n U) k [] [v] tg c' = Some r"
  shows "\<exists>n r. parseSlice_loop (parse U (invoke n U)) kp et vs i slice c = Some r"
proof (induction vs arbitrary: i slice c)
  case Nil
  show ?case by simp
next
  case (Cons v rest)
  let ?k = "kp @ ''['' @ itoa i @ '']''"
  from assms obtain n1 oc c1
    where first: "parse U (invoke n1 U) ?k [] [v] (et, slice ! i) c = Some (oc, c1)"
    by (metis surj_pair)
  show ?case
  proof (cases oc)
    case (Ok x)
    from Cons.IH obtain n2 r2
      where rest: "parseSlice_loop (parse U (invoke n2 U)) kp et rest (Suc i) (slice[i := x]) c1 = Some r2"
      by blast
    let ?n = "max n1 n2"
    have le1: "call_le (invoke n1 U) (invoke ?n U)" and le2: "call_le (invoke n2 U) (invoke ?n U)"
      by (simp_all add: invoke_mono)
    from first have "parse U (invoke ?n U) ?k [] [v] (et, slice ! i) c = Some (oc, c1)"
      by (rule parse_mono[OF le1])
    moreover from rest
    have "parseSlice_loop (parse U (invoke ?n U)) kp et rest (Suc i) (slice[i := x]) c1 = Some r2"
      by (rule parseSlice_loop_mono[rotated]) (rule parse_mono[OF le2])
    ultimately have "parseSlice_loop (parse U (invoke ?n U)) kp et (v # rest) i slice c = Some r2"
      using Ok by simp
    then show ?thesis by blast
  qed (use first in \<open>auto intro!: exI[of _ n1]\<close>)
qed

lemma parseSlice_returns:
  assumes "\<And>k v tg c'. \<exists>n r. parse U (invoke n U) k [] [v] tg c' = Some r"
  shows "\<exists>n r. parseSlice U (invoke n U) key keytail values target c = Some r"
proof (cases "keytail \<noteq> ''[]''")
  case True
  then show ?thesis by (simp add: parseSlice_def)
next
  case False
  show ?thesis
  proof (cases "TypeInfo U (fst target)")
    case (TSlice et)
    from parseSlice_loop_returns[OF assms] obtain n r0
      where "parseSlice_loop (parse U (invoke n U)) (kpath key keytail) et values 0
               (replicate (length values) (Zero U et)) c = Some r0"
      by blast
    then have "\<exists>r. and_then (parseSlice_loop (parse U (invoke n U)) (kpath key keytail) et values 0
               (replicate (length values) (Zero U et)) c)
               (\<lambda>slice c'. Some (Ok (VSlice (Some slice)), c')) = Some r"
      by (rule and_then_total) simp
    with False TSlice show ?thesis
      by (auto simp: parseSlice_def Let_def)
  qed (use False in \<open>simp_all add: parseSlice_def\<close>)
qed


lemma invoke_SucI:
  "dispatch U (invoke n U) h key keytail values target c = Some r \<Longrightarrow>
   \<exists>n r. invoke n U h key keytail values target c = Some r"
  by (intro exI[of _ "Suc n"] exI[of _ r]) simp

lemma leaf_handler_returns:
  assumes "h \<notin> {Fn_parseMap, Fn_parsePtr, Fn_parseSlice, Fn_parseStruct}"
  shows "\<exists>n r. invoke n U h key keytail values target c = Some r"
proof (rule invoke_SucI[of U 0])
  show "dispatch U (invoke 0 U) h key keytail values target c =
        Some (fst (the (dispatch U (invoke 0 U) h key keytail values target c)),
              snd (the (dispatch U (invoke 0 U) h key keytail values target c)))"
    using assms by (cases h) (simp_all add: dispatch_def)
qed

lemma invoke_returns:
  assumes wf: "pointers_well_founded U"
  shows "\<exists>n r. invoke n U h key keytail values target c = Some r"
proof (induction "length keytail" arbitrary: h key keytail "values" target c rule: less_induct)
  case less
  have shorter: "\<exists>n r. invoke n U h' k kt vs tg c' = Some r"
    if "length kt < length keytail" for h' k kt vs tg c'
    using that by (rule less.hyps)
  have parse_shorter: "\<exists>n r. parse U (invoke n U) k kt vs tg c' = Some r"
    if "length kt < length keytail" for k kt vs tg c'
    by (rule parse_returns_if) (rule shorter[OF that])
  have other: "\<exists>n r. invoke n U h' k keytail vs tg c' = Some r"
    if "h' \<noteq> Fn_parsePtr" for h' k vs tg c'
  proof (cases h')
    case Fn_parseMap
    have "\<exists>n r. parseMap U (invoke n U) k keytail vs tg c' = Some r"
      by (rule parseMap_returns) (rule parse_shorter)
    then obtain n r where "parseMap U (invoke n U) k keytail vs tg c' = Some r"
      by (elim exE)
    with Fn_parseMap show ?thesis
      by (intro invoke_SucI[of U n h' k keytail vs tg c' r]) (simp add: dispatch_def)
  next
    case Fn_parseStruct
    have "\<exists>n r. parseStruct U (invoke n U) k keytail vs tg c' = Some r"
      by (rule parseStruct_returns) (rule shorter)
    then obtain n r where "parseStruct U (invoke n U) k keytail vs tg c' = Some r"
      by (elim exE)
    with Fn_parseStruct show ?thesis
      by (intro invoke_SucI[of U n h' k keytail vs tg c' r]) (simp add: dispatch_def)
  next
    case Fn_parseSlice
    show ?thesis
    proof (cases "keytail = ''[]''")
      case True
      then have "\<exists>n r. parse U (invoke n U) k' [] [v] tg' c'' = Some r" for k' v tg' c''
        by (intro parse_shorter) simp
      then have "\<exists>n r. parseSlice U (invoke n U) k keytail vs tg c' = Some r"
        by (rule parseSlice_returns)
      then obtain n r where "parseSlice U (invoke n U) k keytail vs tg c' = Some r"
        by (elim exE)
      with Fn_parseSlice show ?thesis
        by (intro invoke_SucI[of U n h' k keytail vs tg c' r]) (simp add: dispatch_def)
    next
      case False
      with Fn_parseSlice show ?thesis
        by (intro invoke_SucI[of U 0 h' k keytail vs tg c']) (simp add: dispatch_def parseSlice_def)
    qed
  next
    case Fn_parsePtr
    with that show ?thesis by simp
  qed (rule leaf_handler_returns, simp)+
  have ptr: "\<exists>n r. invoke n U Fn_parsePtr k keytail vs (t, v) c' = Some r" for t k vs v c'
    using wf[unfolded pointers_well_founded_def]
  proof (induction t arbitrary: k vs v c' rule: wf_induct_rule)
    case (less t)
    have inner: "\<exists>n r. parse U (invoke n U) k keytail vs (et, el) c' = Some r"
      if et: "TypeInfo U (fst (t, v)) = TPtr et" for et el
    proof (rule parse_returns_if)
      fix h'
      show "\<exists>n r. invoke n U h' k keytail vs (et, el) c' = Some r"
      proof (cases "h' = Fn_parsePtr")
        case True
        from et have "(et, t) \<in> {(e, t). TypeInfo U t = TPtr e}" by simp
        from less.IH[OF this] True show ?thesis by simp
      next
        case False
        then show ?thesis by (rule other)
      qed
    qed
    have "\<exists>n r. parsePtr U (invoke n U) k keytail vs (t, v) c' = Some r"
      by (rule parsePtr_returns) (rule inner)
    then obtain n r where "parsePtr U (invoke n U) k keytail vs (t, v) c' = Some r"
      by (elim exE)
    then show ?case
      by (intro invoke_SucI[of U n Fn_parsePtr k keytail vs "(t, v)" c' r]) (simp add: dispatch_def)
  qed
  show ?case
  proof (cases "h = Fn_parsePtr")
    case True
    with ptr[of key "values" "fst target" "snd target" c] show ?thesis by simp
  next
    case False
    then show ?thesis by (rule other)
  qed
qed

text \<open>
  C10 (as the code has it). When the element relation of the pointer types is
  well-founded, the recursive decoder returns on every key, key tail, value list,
  target and cache: some bound on the depth of the nested calls suffices, and with any
  larger bound the call returns the same outcome. The map, record and sequence cases
  recurse on a shorter key tail, the pointer case on the element type with the same
  tail. Without that condition the recursion need not end (see the counterexample).
\<close>

theorem decoder_terminates:
  assumes "pointers_well_founded U"
  shows "\<exists>N r. \<forall>n\<ge>N. parse U (invoke n U) key keytail values target c = Some r"
proof -
  have "\<exists>n r. parse U (invoke n U) key keytail values target c = Some r"
    by (rule parse_returns_if) (rule invoke_returns[OF assms])
  then obtain N r where N: "parse U (invoke N U) key keytail values target c = Some r"
    by (elim exE)
  have "parse U (invoke n U) key keytail values target c = Some r" if "N \<le> n" for n
    using invoke_mono[OF that] N by (rule parse_mono)
  then have "\<forall>n\<ge>N. parse U (invoke n U) key keytail values target c = Some r"
    by simp
  then show ?thesis
    by (intro exI[of _ N] exI[of _ r])
qed

lemma plain_pointers_well_founded: "pointers_well_founded plain"
  unfolding pointers_well_founded_def
proof (rule wf_subset[OF wf_measure[of length]])
  show "{(e, t). TypeInfo plain t = TPtr e} \<subseteq> measure length"
    by (auto simp: plain_def split: if_splits)
qed

lemma cyclic_simps:
  "TypeInfo cyclic ''P'' = TPtr ''P''" "Implements cyclic t = False"
  by (simp_all add: cyclic_def demo_def)

lemma cyclic_never_returns:
  "parse cyclic (invoke n cyclic) ''F'' [] [''1''] (''P'', VPtr None) Map.empty = None"
proof (induction n)
  case 0
  show ?case by (simp add: parse_def cyclic_simps)
next
  case (Suc n)
  have "parse cyclic (invoke (Suc n) cyclic) ''F'' [] [''1''] (''P'', VPtr None) Map.empty =
        invoke (Suc n) cyclic Fn_parsePtr ''F'' [] [''1''] (''P'', VPtr None) Map.empty"
    by (simp add: parse_def cyclic_simps)
  also have "\<dots> = parsePtr cyclic (invoke n cyclic) ''F'' [] [''1''] (''P'', VPtr None) Map.empty"
    by (simp add: dispatch_def)
  also have "\<dots> = and_then (parse cyclic (invoke n cyclic) ''F'' [] [''1''] (''P'', VPtr None) Map.empty)
                     (\<lambda>x c'. Some (Ok (VPtr (Some x)), c'))"
    by (simp add: parsePtr_def cyclic_simps Zero_def)
  finally show ?case
    using Suc by simp
qed

theorem self_pointer_counterexample:
  "TypeInfo cyclic ''P'' = TPtr ''P'' \<and>
   \<not> (\<exists>n r. parse cyclic (invoke n cyclic) ''F'' [] [''1''] (''P'', VPtr None) Map.empty = Some r)"
  by (simp add: cyclic_never_returns cyclic_simps)

theorem decoder_terminates_witness:
  "pointers_well_founded plain \<and>
   (\<exists>N r. \<forall>n\<ge>N. parse plain (invoke n plain) ''PPInt'' [] [''2''] (''**int'', VPtr None)
                      Map.empty = Some r)"
proof -
  have wf: "pointers_well_founded plain"
    by (rule plain_pointers_well_founded)
  from decoder_terminates[OF wf, of "''PPInt''" "[]" "[''2'']" "(''**int'', VPtr None)" Map.empty]
  have "\<exists>N r. \<forall>n\<ge>N. parse plain (invoke n plain) ''PPInt'' [] [''2''] (''**int'', VPtr None)
                      Map.empty = Some r" .
  with wf show ?thesis
    by (rule conjI)
qed


end
